theory Spec2Isabelle
  imports Main "HOL-Library.Word" "HOL-Library.Sublist"
begin

section \<open>Data model of the file reader\<close>

text \<open>
  The development embeds \<^verbatim>\<open>pkg/stanza/fileconsumer/internal/reader/reader.go\<close>.
  Byte slices are lists of 8-bit words. The record count is a Go \<^verbatim>\<open>int64\<close> that
  the reader increments: it is a 64-bit word, whose addition wraps around as Go's does
  and whose signed value is read with \<open>sint\<close>. File offsets are \<^verbatim>\<open>int64\<close> values
  that the reader only copies (from the scanner and from \<^verbatim>\<open>Stat\<close>) and never
  computes with; they are modelled as \<open>int\<close>. Go \<^verbatim>\<open>error\<close> values are a small
  datatype; a run-time panic is a value of its own, returned together with the state
  reached when it was raised (deferred calls still run on that state).
\<close>

type_synonym bytes = "8 word list"

type_synonym attrs = "string \<rightharpoonup> string"

datatype error = EOF | ErrEndOfHeader | Err string

datatype panic = IndexOutOfRange | MakeSliceLenOutOfRange

text \<open>The open \<^verbatim>\<open>*os.File\<close>: the bytes currently on disk and the seek position.\<close>

record os_file =
  f_bytes :: bytes
  f_pos :: int

text \<open>
  What \<^verbatim>\<open>r.reader\<close> points to: nothing yet, the raw file, or a gzip reader. A gzip
  reader is a stream of its own: it holds the decompressed bytes it has not delivered
  yet, and seeking the file does not move it.
\<close>

datatype reader_src = NoReader | RawFile | GzipReader bytes

text \<open>\<^verbatim>\<open>header.Reader\<close> is an opaque collaborator; only its presence is state of the Reader.\<close>

datatype header_Reader = HeaderPipeline

text \<open>
  \<^verbatim>\<open>Metadata\<close>. \<^verbatim>\<open>FlushState\<close> and \<^verbatim>\<open>TokenLenState\<close> are continuation
  state of the split functions; reader.go only reads \<^verbatim>\<open>TokenLenState.MinimumLength\<close>,
  to size the scan buffer.
\<close>

record Metadata =
  Fingerprint :: bytes
  Offset :: int
  RecordNum :: "64 word"
  FileAttributes :: attrs
  HeaderFinalized :: bool
  MinimumLength :: int
  FileType :: string

text \<open>
  \<^verbatim>\<open>Reader\<close> embeds \<^verbatim>\<open>*Metadata\<close>, so the fields of the metadata are fields
  of the reader: a record extension.
\<close>

record Reader = Metadata +
  fileName :: string
  osFile :: "os_file option"
  reader :: reader_src
  fingerprintSize :: int
  initialBufferSize :: int
  maxLogSize :: int
  headerReader :: "header_Reader option"
  deleteAtEOF :: bool
  needsUpdateFingerprint :: bool
  compression :: string
  acquireFSLock :: bool
  maxBatchSize :: int

text \<open>One call of the sink callback \<^verbatim>\<open>emit.Callback\<close>, with the values it was given.\<close>

record emit_call =
  e_tokens :: "bytes list"
  e_attrs :: attrs
  e_recordNum :: "64 word"
  e_tokenOffsets :: "int list"

text \<open>
  The reader together with what it did to the outside: the calls made to the sink, the
  messages logged, the file names removed from disk, whether the advisory file lock is
  held, and how often the header pipeline was stopped.
\<close>

record world = Reader +
  emitted :: "emit_call list"
  logged :: "string list"
  removed :: "string list"
  locked :: bool
  headerStops :: nat

text \<open>
  What the reader observes of a \<^verbatim>\<open>scanner.Scanner\<close>. The scanner is built by
  \<^verbatim>\<open>scanner.New(r, ..., r.Offset, splitFunc)\<close>: what it delivers depends on the split
  function, on the bytes that \<^verbatim>\<open>r.reader\<close> has left to deliver, and on the offset
  its positions start from. A successful \<^verbatim>\<open>Scan()\<close>
  made some calls of \<^verbatim>\<open>Reader.Read\<close> (each returning a byte count and an error) and
  then offers \<^verbatim>\<open>Bytes()\<close> and \<^verbatim>\<open>Pos()\<close>. A loop over the scanner ends either
  because \<^verbatim>\<open>ctx.Done()\<close> was observed before a scan, or because \<^verbatim>\<open>Scan()\<close>
  returned false, with \<^verbatim>\<open>Error()\<close> and \<^verbatim>\<open>Pos()\<close> as they are then.
\<close>

datatype scan = Scan (reads: "(nat \<times> error option) list") (Bytes: bytes) (Pos: int)

datatype last_scan = CtxDone | ScanEnd "(nat \<times> error option) list" "error option" int

datatype split_func = headerSplitFunc | contentSplitFunc

text \<open>
  The collaborators of the reader, none of which is defined in reader.go: the decoder,
  the header pipeline, the sink, the file system and the scanner.
\<close>

record env =
  decoder_Bytes :: "bytes \<Rightarrow> bytes \<times> error option"
  DecodeAsString :: "bytes \<Rightarrow> string \<times> error option"
  Process :: "string \<Rightarrow> attrs \<Rightarrow> attrs \<times> error option"
  Stop_err :: "error option"
  emitFunc :: "emit_call \<Rightarrow> error option"
  tryLockFile :: bool
  Stat_err :: "error option"
  Seek_err :: "int \<Rightarrow> error option"
  Close_err :: "error option"
  Remove_err :: "error option"
  ReadAt_err :: "error option"
  gzip_NewReader :: "bytes \<Rightarrow> error + bytes"
  scanner_New :: "split_func \<Rightarrow> bytes \<Rightarrow> int \<Rightarrow> scan list \<times> last_scan"

section \<open>Operations\<close>

definition logmsg :: "string \<Rightarrow> world \<Rightarrow> world" where
  "logmsg m w = w\<lparr>logged := logged w @ [m]\<rparr>"

text \<open>\<^verbatim>\<open>r.file.Seek(off, 0)\<close>; a nil file reports an error.\<close>

definition file_Seek :: "env \<Rightarrow> world \<Rightarrow> int \<Rightarrow> error option \<times> world" where
  "file_Seek env w off =
     (case osFile w of
        None \<Rightarrow> (Some (Err ''invalid argument''), w)
      | Some f \<Rightarrow>
          (case Seek_err env off of
             Some e \<Rightarrow> (Some e, w)
           | None \<Rightarrow> (None, w\<lparr>osFile := Some (f\<lparr>f_pos := off\<rparr>)\<rparr>)))"

subsection \<open>Fingerprints\<close>

text \<open>
  Modelled from the spec: the package \<^verbatim>\<open>fingerprint\<close> is not part of the sources.
  A fingerprint is the sequence of leading bytes it was built from; \<^verbatim>\<open>Len\<close> is its
  length; \<^verbatim>\<open>f.StartsWith(old)\<close> tests that \<open>old\<close> is a prefix of \<open>f\<close>;
  \<^verbatim>\<open>NewFromFile\<close> is a bounded read of up to \<open>sz\<close> bytes from the start of the
  file, which may fail.
\<close>

definition Len :: "bytes \<Rightarrow> int" where
  "Len fp = int (length fp)"

definition StartsWith :: "bytes \<Rightarrow> bytes \<Rightarrow> bool" where
  "StartsWith f old = prefix old f"

definition NewFromFile :: "env \<Rightarrow> os_file \<Rightarrow> int \<Rightarrow> bool \<Rightarrow> error + bytes" where
  "NewFromFile env f sz decompressData =
     (case ReadAt_err env of
        Some e \<Rightarrow> Inl e
      | None \<Rightarrow> Inr (take (nat sz) (f_bytes f)))"

definition updateFingerprint :: "env \<Rightarrow> world \<Rightarrow> world" where
  "updateFingerprint env w =
     (let w1 = w\<lparr>needsUpdateFingerprint := False\<rparr> in
      case osFile w1 of
        None \<Rightarrow> w1
      | Some f \<Rightarrow>
          (case NewFromFile env f (fingerprintSize w1) (compression w1 \<noteq> '''') of
             Inl e \<Rightarrow> w1
           | Inr refreshedFingerprint \<Rightarrow>
               if Len (Fingerprint w1) > 0 \<and> \<not> StartsWith refreshedFingerprint (Fingerprint w1)
               then w1
               else w1\<lparr>Fingerprint := refreshedFingerprint\<rparr>))"

text \<open>\<^verbatim>\<open>Validate\<close> returns its verdict and the reader as it leaves it.\<close>

definition Validate :: "env \<Rightarrow> world \<Rightarrow> bool \<times> world" where
  "Validate env w =
     (case osFile w of
        None \<Rightarrow> (False, w)
      | Some f \<Rightarrow>
          (case NewFromFile env f (fingerprintSize w) (compression w \<noteq> '''') of
             Inl e \<Rightarrow> (False, w)
           | Inr refreshedFingerprint \<Rightarrow>
               if StartsWith refreshedFingerprint (Fingerprint w) then (True, w)
               else (False, w)))"

subsection \<open>Reading, closing, deleting\<close>

text \<open>The bytes that \<^verbatim>\<open>r.reader\<close> has left to deliver.\<close>

definition reader_bytes :: "world \<Rightarrow> bytes" where
  "reader_bytes w =
     (case reader w of
        NoReader \<Rightarrow> []
      | RawFile \<Rightarrow>
          (case osFile w of None \<Rightarrow> [] | Some f \<Rightarrow> drop (nat (f_pos f)) (f_bytes f))
      | GzipReader stream \<Rightarrow> stream)"

text \<open>
  \<^verbatim>\<open>Reader.Read\<close>, given what \<^verbatim>\<open>r.reader.Read(dst)\<close> returned. Reading the raw
  file moves its position. The gzip reader reads the file through a section reader,
  which does not move the position of the file; the bytes read are taken from the
  decompressed stream.
\<close>

definition Read :: "world \<Rightarrow> nat \<times> error option \<Rightarrow> world" where
  "Read w res =
     (let w1 = (case reader w of
                  NoReader \<Rightarrow> w
                | RawFile \<Rightarrow>
                    (case osFile w of
                       None \<Rightarrow> w
                     | Some f \<Rightarrow> w\<lparr>osFile := Some (f\<lparr>f_pos := f_pos f + int (fst res)\<rparr>)\<rparr>)
                | GzipReader stream \<Rightarrow> w\<lparr>reader := GzipReader (drop (fst res) stream)\<rparr>)
      in if fst res = 0 \<or> snd res \<noteq> None then w1
         else if \<not> needsUpdateFingerprint w1 \<and> Len (Fingerprint w1) < fingerprintSize w1
              then w1\<lparr>needsUpdateFingerprint := True\<rparr>
              else w1)"

definition close :: "env \<Rightarrow> world \<Rightarrow> world" where
  "close env w =
     (let w1 = (case osFile w of
                  None \<Rightarrow> w
                | Some f \<Rightarrow>
                    (case Close_err env of
                       None \<Rightarrow> w
                     | Some e \<Rightarrow> logmsg ''Problem closing reader'' w)\<lparr>osFile := None\<rparr>)
      in case headerReader w1 of
           None \<Rightarrow> w1
         | Some h \<Rightarrow>
             (let w2 = w1\<lparr>headerStops := headerStops w1 + 1\<rparr>
              in case Stop_err env of
                   None \<Rightarrow> w2
                 | Some e \<Rightarrow> logmsg ''Failed to stop header pipeline'' w2))"

definition delete :: "env \<Rightarrow> world \<Rightarrow> world" where
  "delete env w =
     (let w1 = close env w
      in case Remove_err env of
           None \<Rightarrow> w1\<lparr>removed := removed w1 @ [fileName w1]\<rparr>
         | Some e \<Rightarrow> logmsg ''could not delete'' w1)"

text \<open>
  \<^verbatim>\<open>Close\<close> hands the metadata to the caller. In Go the reader's pointer to it is set
  to nil afterwards, and the reader is not used again.
\<close>

definition Close :: "env \<Rightarrow> world \<Rightarrow> Metadata \<times> world" where
  "Close env w = (let w1 = close env w in (Metadata.truncate w1, w1))"

subsection \<open>The content phase\<close>

text \<open>The call \<^verbatim>\<open>r.emitFunc(ctx, tokens, r.FileAttributes, r.RecordNum, offsets)\<close> and
  the logging of its error.\<close>

definition emit :: "env \<Rightarrow> world \<Rightarrow> bytes list \<Rightarrow> int list \<Rightarrow> world" where
  "emit env w toks offs =
     (let c = \<lparr>e_tokens = toks, e_attrs = FileAttributes w,
               e_recordNum = RecordNum w, e_tokenOffsets = offs\<rparr>;
          w1 = w\<lparr>emitted := emitted w @ [c]\<rparr>
      in case emitFunc env c of
           None \<Rightarrow> w1
         | Some e \<Rightarrow> logmsg ''failed to emit token'' w1)"

text \<open>
  The \<^verbatim>\<open>for\<close> loop of \<^verbatim>\<open>readContents\<close>, over the successful scans that precede
  the end of the loop. The locals are \<open>tokenBodies\<close>, \<open>tokenOffsets\<close> and
  \<open>numTokensBatched\<close>. A write at an index outside the slice panics.
\<close>

fun readContents_loop ::
  "env \<Rightarrow> last_scan \<Rightarrow> world \<Rightarrow> bytes list \<Rightarrow> int list \<Rightarrow> nat \<Rightarrow> scan list
     \<Rightarrow> panic option \<times> world" where
  "readContents_loop env fin w tokenBodies tokenOffsets numTokensBatched [] =
     (case fin of
        CtxDone \<Rightarrow> (None, w)
      | ScanEnd rds err p \<Rightarrow>
          (let w1 = foldl Read w rds;
               w2 = (case err of
                       Some e \<Rightarrow> logmsg ''failed during scan'' w1
                     | None \<Rightarrow> if deleteAtEOF w1 then delete env w1 else w1)
           in if numTokensBatched > 0
              then (None, (emit env w2 (take numTokensBatched tokenBodies) tokenOffsets)
                            \<lparr>Offset := p\<rparr>)
              else (None, w2)))"
| "readContents_loop env fin w tokenBodies tokenOffsets numTokensBatched (s # ss) =
     (let w1 = foldl Read w (reads s);
          d = decoder_Bytes env (Bytes s)
      in if \<not> numTokensBatched < length tokenBodies then (Some IndexOutOfRange, w1)
         else if \<not> numTokensBatched + 1 < length tokenOffsets then (Some IndexOutOfRange, w1)
         else
           (let tokenBodies1 = tokenBodies[numTokensBatched := fst d];
                tokenOffsets1 = tokenOffsets[numTokensBatched + 1 := Pos s]
            in if snd d \<noteq> None
               then readContents_loop env fin
                      ((logmsg ''failed to decode token'' w1)\<lparr>Offset := Pos s\<rparr>)
                      tokenBodies1 tokenOffsets1 numTokensBatched ss
               else
                 (let n1 = numTokensBatched + 1;
                      w2 = w1\<lparr>RecordNum := RecordNum w1 + 1\<rparr>
                  in if maxBatchSize w2 > 0 \<and> int n1 \<ge> maxBatchSize w2
                     then readContents_loop env fin
                            ((emit env w2 (take n1 tokenBodies1) tokenOffsets1)
                               \<lparr>Offset := Pos s\<rparr>)
                            tokenBodies1 (tokenOffsets1[0 := Pos s]) 0 ss
                     else readContents_loop env fin w2 tokenBodies1 tokenOffsets1 n1 ss)))"

text \<open>
  \<^verbatim>\<open>readContents\<close>: the scanner starts at \<^verbatim>\<open>r.Offset\<close>; \<^verbatim>\<open>make\<close> panics on a
  negative length; \<^verbatim>\<open>tokenOffsets[0] = r.Offset\<close>. The scan buffer (pooled, or a
  larger one when \<^verbatim>\<open>MinimumLength\<close> exceeds \<^verbatim>\<open>initialBufferSize\<close>) is internal to
  the scanner.
\<close>

definition readContents :: "env \<Rightarrow> world \<Rightarrow> panic option \<times> world" where
  "readContents env w =
     (let s = scanner_New env contentSplitFunc (reader_bytes w) (Offset w)
      in if maxBatchSize w < 0 then (Some MakeSliceLenOutOfRange, w)
         else
           (let tokenBodies = replicate (nat (maxBatchSize w)) [];
                tokenOffsets = (replicate (nat (maxBatchSize w + 1)) 0)[0 := Offset w]
            in readContents_loop env (snd s) w tokenBodies tokenOffsets 0 (fst s)))"

subsection \<open>The header phase\<close>

text \<open>
  The code after the loop of \<^verbatim>\<open>readHeader\<close>, reached by \<^verbatim>\<open>break\<close>: stop and
  drop the header pipeline, latch \<^verbatim>\<open>HeaderFinalized\<close>, seek the file back to
  \<^verbatim>\<open>r.Offset\<close>. The result says whether reading the file is done for this cycle.
\<close>

definition finalizeHeader :: "env \<Rightarrow> world \<Rightarrow> bool \<times> world" where
  "finalizeHeader env w =
     (let w1 = w\<lparr>headerStops := headerStops w + 1\<rparr>;
          w2 = (case Stop_err env of
                  None \<Rightarrow> w1
                | Some e \<Rightarrow> logmsg ''failed to stop header pipeline during finalization'' w1);
          w3 = w2\<lparr>headerReader := None, HeaderFinalized := True\<rparr>;
          sk = file_Seek env w3 (Offset w3)
      in case fst sk of
           Some e \<Rightarrow> (True, logmsg ''failed to seek post-header'' (snd sk))
         | None \<Rightarrow> (False, snd sk))"

text \<open>
  The \<^verbatim>\<open>for\<close> loop of \<^verbatim>\<open>readHeader\<close>. \<^verbatim>\<open>Process\<close> is given the shared
  attribute map and may change it. \<^verbatim>\<open>ReadToEnd\<close> enters the header phase only when
  \<^verbatim>\<open>r.headerReader\<close> is not nil.
\<close>

fun readHeader_loop :: "env \<Rightarrow> last_scan \<Rightarrow> world \<Rightarrow> scan list \<Rightarrow> bool \<times> world" where
  "readHeader_loop env fin w [] =
     (case fin of
        CtxDone \<Rightarrow> (True, w)
      | ScanEnd rds err p \<Rightarrow>
          (let w1 = foldl Read w rds
           in case err of
                Some e \<Rightarrow> (True, logmsg ''failed during header scan'' w1)
              | None \<Rightarrow>
                  (let w2 = logmsg ''end of file reached'' w1
                   in (True, if deleteAtEOF w2 then delete env w2 else w2))))"
| "readHeader_loop env fin w (s # ss) =
     (let w1 = foldl Read w (reads s);
          d = DecodeAsString env (Bytes s)
      in if snd d \<noteq> None
         then readHeader_loop env fin
                ((logmsg ''failed to decode header token'' w1)\<lparr>Offset := Pos s\<rparr>) ss
         else
           (let pr = Process env (fst d) (FileAttributes w1);
                w2 = w1\<lparr>FileAttributes := fst pr\<rparr>
            in case snd pr of
                 None \<Rightarrow> readHeader_loop env fin (w2\<lparr>Offset := Pos s\<rparr>) ss
               | Some e \<Rightarrow>
                   if e = ErrEndOfHeader then finalizeHeader env w2
                   else readHeader_loop env fin
                          ((logmsg ''failed to process header token'' w2)\<lparr>Offset := Pos s\<rparr>) ss))"

definition readHeader :: "env \<Rightarrow> world \<Rightarrow> bool \<times> world" where
  "readHeader env w =
     (let s = scanner_New env headerSplitFunc (reader_bytes w) (Offset w)
      in readHeader_loop env (snd s) w (fst s))"

subsection \<open>ReadToEnd\<close>

definition gzipExtension :: string where
  "gzipExtension = ''.gz''"

text \<open>
  \<^verbatim>\<open>createGzipReader\<close>: the size of the file from \<^verbatim>\<open>Stat\<close>, and a gzip reader on
  the section of the file that starts at \<^verbatim>\<open>r.Offset\<close>; \<^verbatim>\<open>gzip.NewReader\<close> fails
  or gives the decompressed stream of the section.
\<close>

definition createGzipReader :: "env \<Rightarrow> world \<Rightarrow> (error + int) \<times> world" where
  "createGzipReader env w =
     (case osFile w of
        None \<Rightarrow> (Inl (Err ''invalid argument''), logmsg ''failed to stat'' w)
      | Some f \<Rightarrow>
          (case Stat_err env of
             Some e \<Rightarrow> (Inl e, logmsg ''failed to stat'' w)
           | None \<Rightarrow>
               (let currentEOF = int (length (f_bytes f))
                in case gzip_NewReader env
                          (take (nat currentEOF) (drop (nat (Offset w)) (f_bytes f))) of
                     Inl e \<Rightarrow>
                       (Inl e, if e \<noteq> EOF then logmsg ''failed to create gzip reader'' w else w)
                   | Inr stream \<Rightarrow> (Inr currentEOF, w\<lparr>reader := GzipReader stream\<rparr>))))"

text \<open>
  Lines 103 to 120 of \<^verbatim>\<open>ReadToEnd\<close>: seek, header phase, content phase, and the
  deferred fingerprint update, which runs on every way out after the seek, a panic
  included.
\<close>

definition ReadToEnd_phases :: "env \<Rightarrow> world \<Rightarrow> panic option \<times> world" where
  "ReadToEnd_phases env w =
     (let sk = file_Seek env w (Offset w)
      in case fst sk of
           Some e \<Rightarrow> (None, logmsg ''failed to seek'' (snd sk))
         | None \<Rightarrow>
             (let res = (if headerReader (snd sk) \<noteq> None
                         then (let h = readHeader env (snd sk)
                               in if fst h then (None, snd h) else readContents env (snd h))
                         else readContents env (snd sk));
                  w2 = snd res
              in (fst res,
                  if needsUpdateFingerprint w2 then updateFingerprint env w2 else w2)))"

text \<open>
  The gzip branch of the \<^verbatim>\<open>switch\<close>: when the gzip reader was created, the deferred
  function sets \<^verbatim>\<open>r.Offset = currentEOF\<close> after everything else.
\<close>

definition ReadToEnd_gzip :: "env \<Rightarrow> world \<Rightarrow> panic option \<times> world" where
  "ReadToEnd_gzip env w =
     (let g = createGzipReader env w
      in case fst g of
           Inl e \<Rightarrow> (None, snd g)
         | Inr currentEOF \<Rightarrow>
             (let res = ReadToEnd_phases env (snd g)
              in (fst res, (snd res)\<lparr>Offset := currentEOF\<rparr>)))"

definition ReadToEnd_switch :: "env \<Rightarrow> world \<Rightarrow> panic option \<times> world" where
  "ReadToEnd_switch env w =
     (if compression w = ''gzip'' then ReadToEnd_gzip env w
      else if compression w = ''auto''
      then (if FileType w = gzipExtension then ReadToEnd_gzip env w
            else ReadToEnd_phases env (w\<lparr>reader := RawFile\<rparr>))
      else ReadToEnd_phases env (w\<lparr>reader := RawFile\<rparr>))"

text \<open>
  \<^verbatim>\<open>ReadToEnd\<close>. The file lock (\<^verbatim>\<open>tryLockFile\<close>, \<^verbatim>\<open>unlockFile\<close>) is defined
  per platform outside reader.go; here taking it succeeds or not, and the deferred unlock
  releases it.
\<close>

definition ReadToEnd :: "env \<Rightarrow> world \<Rightarrow> panic option \<times> world" where
  "ReadToEnd env w =
     (if acquireFSLock w
      then (if \<not> tryLockFile env then (None, w)
            else (let res = ReadToEnd_switch env (w\<lparr>locked := True\<rparr>)
                  in (fst res, (snd res)\<lparr>locked := False\<rparr>)))
      else ReadToEnd_switch env w)"

section \<open>The content phase as batches\<close>

text \<open>
  A description of the flush calls of the content phase that does not mention the slices
  the code reuses. A scan is decodable when the decoder returns no error for its bytes.
\<close>

definition decoded :: "env \<Rightarrow> scan \<Rightarrow> bytes" where
  "decoded env s = fst (decoder_Bytes env (Bytes s))"

definition decodable :: "env \<Rightarrow> scan \<Rightarrow> bool" where
  "decodable env s \<longleftrightarrow> snd (decoder_Bytes env (Bytes s)) = None"

text \<open>In the header phase tokens are decoded with \<^verbatim>\<open>textutils.DecodeAsString\<close>.\<close>

definition decodable_header :: "env \<Rightarrow> scan \<Rightarrow> bool" where
  "decodable_header env s \<longleftrightarrow> snd (DecodeAsString env (Bytes s)) = None"

text \<open>
  \<open>batches m atEnd start rn acc ss\<close> cuts the decodable scans \<open>ss\<close> into batches of
  \<open>m\<close>, starting with the scans \<open>acc\<close> already collected. Each batch comes with
  the scanner position before it (\<open>start\<close> for the first one, the position after the
  last token of the previous batch otherwise) and with the record count after it. The
  scans left over at the end form a last, shorter batch when \<open>atEnd\<close> holds, and are
  not flushed otherwise.
\<close>

fun batches ::
  "nat \<Rightarrow> bool \<Rightarrow> int \<Rightarrow> 64 word \<Rightarrow> scan list \<Rightarrow> scan list
     \<Rightarrow> (int \<times> scan list \<times> 64 word) list" where
  "batches m atEnd start rn acc [] = (if acc \<noteq> [] \<and> atEnd then [(start, acc, rn)] else [])"
| "batches m atEnd start rn acc (s # ss) =
     (if m \<le> length acc + 1
      then (start, acc @ [s], rn + 1) # batches m atEnd (Pos s) (rn + 1) [] ss
      else batches m atEnd start (rn + 1) (acc @ [s]) ss)"

text \<open>
  What a flush call shows of a batch: the token bodies, the first
  \<open>length tokens + 1\<close> offsets, the length of the whole offsets slice, and the record
  count. The offsets after that prefix are left over from earlier writes.
\<close>

definition call_view :: "emit_call \<Rightarrow> bytes list \<times> int list \<times> nat \<times> 64 word" where
  "call_view c =
     (e_tokens c, take (length (e_tokens c) + 1) (e_tokenOffsets c),
      length (e_tokenOffsets c), e_recordNum c)"

definition batch_view ::
  "env \<Rightarrow> nat \<Rightarrow> int \<times> scan list \<times> 64 word
     \<Rightarrow> bytes list \<times> int list \<times> nat \<times> 64 word" where
  "batch_view env m b =
     (map (decoded env) (fst (snd b)), fst b # map Pos (fst (snd b)), m + 1, snd (snd b))"

text \<open>The flush calls a phase added to those made before it.\<close>

definition new_calls :: "world \<Rightarrow> world \<Rightarrow> emit_call list" where
  "new_calls w w' = drop (length (emitted w)) (emitted w')"

text \<open>
  The scanner position before the \<open>j\<close>-th decodable scan: every scan is paired with
  the position the scanner had before it, which is the start offset for the first scan
  and the position after the scan before it for the others.
\<close>

definition pos_before :: "env \<Rightarrow> int \<Rightarrow> scan list \<Rightarrow> nat \<Rightarrow> int" where
  "pos_before env start ss j =
     fst (filter (\<lambda>x. decodable env (snd x)) (zip (start # map Pos ss) ss) ! j)"

section \<open>Example inputs\<close>

text \<open>
  A decoder that rejects the empty token and returns every other token unchanged, a
  header pipeline that ends the header at the line \<open>''x''\<close>, a sink that accepts
  everything, and a file system without errors. The content scanner finds five tokens
  of one byte each, separated by one byte; the header scanner finds one header line and
  then the first content line.
\<close>

definition ex_env :: env where
  "ex_env =
     \<lparr>decoder_Bytes = (\<lambda>b. (b, if b = [] then Some (Err ''invalid byte sequence'') else None)),
      DecodeAsString = (\<lambda>b. (map (\<lambda>x. char_of (unat x)) b,
                              if b = [] then Some (Err ''invalid byte sequence'') else None)),
      Process = (\<lambda>t a. if t = ''x'' then (a, Some ErrEndOfHeader) else (a(''h'' \<mapsto> t), None)),
      Stop_err = None,
      emitFunc = (\<lambda>c. None),
      tryLockFile = True,
      Stat_err = None,
      Seek_err = (\<lambda>off. None),
      Close_err = None,
      Remove_err = None,
      ReadAt_err = None,
      gzip_NewReader = (\<lambda>b. Inr b),
      scanner_New = (\<lambda>sf src off.
        if sf = headerSplitFunc
        then ([Scan [(4, None)] [35] 2, Scan [] [120] 4], ScanEnd [] None 4)
        else ([Scan [(10, None)] [1] 2, Scan [] [2] 4, Scan [] [3] 6, Scan [] [4] 8,
               Scan [] [5] 10], ScanEnd [(0, Some EOF)] None 10))\<rparr>"

definition ex_world :: world where
  "ex_world =
     \<lparr>Fingerprint = [1, 10], Offset = 0, RecordNum = 0, FileAttributes = Map.empty,
      HeaderFinalized = False, MinimumLength = 0, FileType = [],
      fileName = ''a.log'',
      osFile = Some \<lparr>f_bytes = [1, 10, 2, 10, 3, 10, 4, 10, 5, 10], f_pos = 0\<rparr>,
      reader = NoReader, fingerprintSize = 1000, initialBufferSize = 16384,
      maxLogSize = 1048576, headerReader = None, deleteAtEOF = False,
      needsUpdateFingerprint = False, compression = [], acquireFSLock = False,
      maxBatchSize = 2,
      emitted = [], logged = [], removed = [], locked = False, headerStops = 0\<rparr>"

text \<open>
  Variants of the example: a scanner that finds an undecodable (empty) token between two
  good ones; a sink that rejects every call; a context cancelled after the first token.
\<close>

definition ex_env_undecodable :: env where
  "ex_env_undecodable =
     ex_env\<lparr>scanner_New :=
       (\<lambda>sf src off. ([Scan [] [1] 2, Scan [] [] 3, Scan [] [2] 5], ScanEnd [] None 5))\<rparr>"

text \<open>A scanner that finds an undecodable (empty) token and then a good one.\<close>

definition ex_env_undecodable_first :: env where
  "ex_env_undecodable_first =
     ex_env\<lparr>scanner_New :=
       (\<lambda>sf src off. ([Scan [] [] 1, Scan [] [1] 3], ScanEnd [] None 3))\<rparr>"

definition ex_env_sink_down :: env where
  "ex_env_sink_down = ex_env\<lparr>emitFunc := (\<lambda>c. Some (Err ''sink unavailable''))\<rparr>"

definition ex_env_cancelled :: env where
  "ex_env_cancelled = ex_env\<lparr>scanner_New := (\<lambda>sf src off. ([Scan [] [1] 2], CtxDone))\<rparr>"

text \<open>A scanner that finds the token \<open>[1]\<close> and then the end of the input.\<close>

definition ex_env_one_token :: env where
  "ex_env_one_token =
     ex_env\<lparr>scanner_New := (\<lambda>sf src off. ([Scan [] [1] 2], ScanEnd [] None 2))\<rparr>"

text \<open>
  A scanner that depends on the bytes it is given: it reads all of them with one call
  of \<^verbatim>\<open>Read\<close> during its first scan, as a buffered scanner does with a short input, and
  splits them into the lines that end with the byte 10. With it come a file of two
  lines, \<open>#\<close> for the header and \<open>x\<close> for the content, read as it is, and a file
  of three bytes that \<^verbatim>\<open>gzip.NewReader\<close> decompresses to the same two lines.
\<close>

fun ex_lines :: "bytes \<Rightarrow> bytes \<Rightarrow> int \<Rightarrow> (bytes \<times> int) list" where
  "ex_lines cur [] p = []"
| "ex_lines cur (b # bs) p =
     (if b = 10 then (cur, p + 1) # ex_lines [] bs (p + 1)
      else ex_lines (cur @ [b]) bs (p + 1))"

definition ex_scanner :: "bytes \<Rightarrow> int \<Rightarrow> scan list \<times> last_scan" where
  "ex_scanner src off =
     (case ex_lines [] src off of
        [] \<Rightarrow> ([], ScanEnd [(length src, None), (0, Some EOF)] None off)
      | l # ls \<Rightarrow>
          (Scan [(length src, None)] (fst l) (snd l) # map (\<lambda>t. Scan [] (fst t) (snd t)) ls,
           ScanEnd [(0, Some EOF)] None (snd (last (l # ls)))))"

definition ex_env_lines :: env where
  "ex_env_lines =
     ex_env\<lparr>scanner_New := (\<lambda>sf src off. ex_scanner src off),
            gzip_NewReader :=
              (\<lambda>b. if b = [31, 139, 8] then Inr [35, 10, 120, 10]
                    else Inl (Err ''gzip: invalid header''))\<rparr>"

definition ex_world_raw_header :: world where
  "ex_world_raw_header =
     ex_world\<lparr>Fingerprint := [],
              osFile := Some \<lparr>f_bytes = [35, 10, 120, 10], f_pos = 0\<rparr>,
              headerReader := Some HeaderPipeline\<rparr>"

definition ex_world_gzip_header :: world where
  "ex_world_gzip_header =
     ex_world\<lparr>Fingerprint := [],
              osFile := Some \<lparr>f_bytes = [31, 139, 8], f_pos = 0\<rparr>,
              headerReader := Some HeaderPipeline,
              compression := ''gzip''\<rparr>"

section \<open>Frame lemmas\<close>

text \<open>
  \<^verbatim>\<open>Read\<close> changes the position of the file or of the gzip stream and the
  fingerprint flag, nothing else.
\<close>

lemma Read_eq:
  "Read w r = w\<lparr>osFile := osFile (Read w r), reader := reader (Read w r),
                 needsUpdateFingerprint := needsUpdateFingerprint (Read w r)\<rparr>"
  by (simp add: Read_def Let_def split: reader_src.splits option.splits)

lemma foldl_Read_eq:
  "foldl Read w rs = w\<lparr>osFile := osFile (foldl Read w rs), reader := reader (foldl Read w rs),
                        needsUpdateFingerprint := needsUpdateFingerprint (foldl Read w rs)\<rparr>"
proof (induction rs arbitrary: w)
  case Nil
  show ?case by simp
next
  case (Cons r rs)
  have "foldl Read (Read w r) rs =
        (w\<lparr>osFile := osFile (Read w r), reader := reader (Read w r),
           needsUpdateFingerprint := needsUpdateFingerprint (Read w r)\<rparr>)
          \<lparr>osFile := osFile (foldl Read (Read w r) rs),
           reader := reader (foldl Read (Read w r) rs),
           needsUpdateFingerprint := needsUpdateFingerprint (foldl Read (Read w r) rs)\<rparr>"
    using Cons.IH [of "Read w r"] Read_eq [of w r] by metis
  then show ?case by simp
qed

lemma foldl_Read_frame [simp]:
  "Offset (foldl Read w rs) = Offset w"
  "RecordNum (foldl Read w rs) = RecordNum w"
  "FileAttributes (foldl Read w rs) = FileAttributes w"
  "Fingerprint (foldl Read w rs) = Fingerprint w"
  "HeaderFinalized (foldl Read w rs) = HeaderFinalized w"
  "maxBatchSize (foldl Read w rs) = maxBatchSize w"
  "deleteAtEOF (foldl Read w rs) = deleteAtEOF w"
  "headerReader (foldl Read w rs) = headerReader w"
  "fileName (foldl Read w rs) = fileName w"
  "fingerprintSize (foldl Read w rs) = fingerprintSize w"
  "emitted (foldl Read w rs) = emitted w"
  "logged (foldl Read w rs) = logged w"
  "removed (foldl Read w rs) = removed w"
  "headerStops (foldl Read w rs) = headerStops w"
  "locked (foldl Read w rs) = locked w"
  by (subst foldl_Read_eq, simp)+

lemma Read_osFile_None: "osFile (Read w r) = None \<longleftrightarrow> osFile w = None"
  by (simp add: Read_def Let_def split: reader_src.splits option.splits)

lemma foldl_Read_osFile_None [simp]: "osFile (foldl Read w rs) = None \<longleftrightarrow> osFile w = None"
  by (induction rs arbitrary: w) (simp_all add: Read_osFile_None)

lemma logmsg_frame [simp]:
  "Offset (logmsg m w) = Offset w"
  "RecordNum (logmsg m w) = RecordNum w"
  "FileAttributes (logmsg m w) = FileAttributes w"
  "Fingerprint (logmsg m w) = Fingerprint w"
  "HeaderFinalized (logmsg m w) = HeaderFinalized w"
  "maxBatchSize (logmsg m w) = maxBatchSize w"
  "deleteAtEOF (logmsg m w) = deleteAtEOF w"
  "headerReader (logmsg m w) = headerReader w"
  "fileName (logmsg m w) = fileName w"
  "reader (logmsg m w) = reader w"
  "fingerprintSize (logmsg m w) = fingerprintSize w"
  "osFile (logmsg m w) = osFile w"
  "emitted (logmsg m w) = emitted w"
  "removed (logmsg m w) = removed w"
  "headerStops (logmsg m w) = headerStops w"
  "locked (logmsg m w) = locked w"
  "needsUpdateFingerprint (logmsg m w) = needsUpdateFingerprint w"
  by (simp_all add: logmsg_def)

lemma close_eq:
  "close env w = w\<lparr>osFile := None, logged := logged (close env w),
                     headerStops := headerStops (close env w)\<rparr>"
  by (simp add: close_def Let_def logmsg_def split: option.splits)

lemma delete_eq:
  "delete env w = w\<lparr>osFile := None, logged := logged (delete env w),
                      removed := removed (delete env w),
                      headerStops := headerStops (delete env w)\<rparr>"
proof -
  define l where "l = logged (close env w)"
  define h where "h = headerStops (close env w)"
  have c: "close env w = w\<lparr>osFile := None, logged := l, headerStops := h\<rparr>"
    unfolding l_def h_def by (rule close_eq)
  show ?thesis
    by (simp add: delete_def Let_def logmsg_def c split: option.splits)
qed

lemma delete_frame [simp]:
  "Offset (delete env w) = Offset w"
  "RecordNum (delete env w) = RecordNum w"
  "FileAttributes (delete env w) = FileAttributes w"
  "Fingerprint (delete env w) = Fingerprint w"
  "HeaderFinalized (delete env w) = HeaderFinalized w"
  "maxBatchSize (delete env w) = maxBatchSize w"
  "deleteAtEOF (delete env w) = deleteAtEOF w"
  "headerReader (delete env w) = headerReader w"
  "fileName (delete env w) = fileName w"
  "reader (delete env w) = reader w"
  "fingerprintSize (delete env w) = fingerprintSize w"
  "emitted (delete env w) = emitted w"
  "locked (delete env w) = locked w"
  "needsUpdateFingerprint (delete env w) = needsUpdateFingerprint w"
  "osFile (delete env w) = None"
  by (subst delete_eq, simp)+

lemma emit_frame [simp]:
  "Offset (emit env w ts os) = Offset w"
  "RecordNum (emit env w ts os) = RecordNum w"
  "FileAttributes (emit env w ts os) = FileAttributes w"
  "Fingerprint (emit env w ts os) = Fingerprint w"
  "HeaderFinalized (emit env w ts os) = HeaderFinalized w"
  "maxBatchSize (emit env w ts os) = maxBatchSize w"
  "deleteAtEOF (emit env w ts os) = deleteAtEOF w"
  "headerReader (emit env w ts os) = headerReader w"
  "fileName (emit env w ts os) = fileName w"
  "reader (emit env w ts os) = reader w"
  "fingerprintSize (emit env w ts os) = fingerprintSize w"
  "osFile (emit env w ts os) = osFile w"
  "removed (emit env w ts os) = removed w"
  "headerStops (emit env w ts os) = headerStops w"
  "locked (emit env w ts os) = locked w"
  "needsUpdateFingerprint (emit env w ts os) = needsUpdateFingerprint w"
  by (simp_all add: emit_def Let_def logmsg_def split: option.splits)

lemma emitted_emit [simp]:
  "emitted (emit env w ts os) =
     emitted w @ [\<lparr>e_tokens = ts, e_attrs = FileAttributes w,
                    e_recordNum = RecordNum w, e_tokenOffsets = os\<rparr>]"
  by (simp add: emit_def Let_def logmsg_def split: option.splits)

section \<open>The loop of the content phase\<close>

text \<open>
  With a positive batch size, slices of the lengths that \<^verbatim>\<open>readContents\<close> allocates
  and fewer tokens collected than the batch size, every index the loop writes is in
  range.
\<close>

lemma loop_no_panic:
  "1 \<le> maxBatchSize w \<Longrightarrow> length tb = nat (maxBatchSize w) \<Longrightarrow>
   length toffs = nat (maxBatchSize w) + 1 \<Longrightarrow> n < nat (maxBatchSize w) \<Longrightarrow>
   fst (readContents_loop env fin w tb toffs n ss) = None"
proof (induction ss arbitrary: w tb toffs n)
  case Nil
  then show ?case by (simp add: Let_def split: last_scan.splits)
next
  case (Cons s ss)
  show ?case
  proof (cases "snd (decoder_Bytes env (Bytes s)) = None")
    case False
    then show ?thesis using Cons.prems
      by (simp add: Let_def Cons.IH)
  next
    case True
    show ?thesis
    proof (cases "maxBatchSize w \<le> int n + 1")
      case full: True
      then show ?thesis using Cons.prems True
        by (simp add: Let_def Cons.IH)
    next
      case notfull: False
      then show ?thesis using Cons.prems True
        by (simp add: Let_def Cons.IH)
    qed
  qed
qed

section \<open>Properties of the reader\<close>

subsection \<open>Index safety of the batch\<close>

text \<open>
  C10. When \<^verbatim>\<open>maxBatchSize\<close> is 0, \<^verbatim>\<open>tokenBodies\<close> has length 0 and the write of
  the first scanned token at index \<^verbatim>\<open>numTokensBatched = 0\<close> is out of range: the
  content phase panics as soon as the scanner delivers a token. More generally, once
  the scanner delivers at least one token, the content phase runs without a panic exactly
  when \<^verbatim>\<open>maxBatchSize\<close> is at least 1 (a negative size already panics in
  \<^verbatim>\<open>make\<close>).
\<close>

theorem readContents_needs_positive_maxBatchSize:
  assumes "fst (scanner_New env contentSplitFunc (reader_bytes w) (Offset w)) \<noteq> []"
  shows "(maxBatchSize w = 0 \<longrightarrow> fst (readContents env w) = Some IndexOutOfRange) \<and>
         (fst (readContents env w) = None \<longleftrightarrow> 1 \<le> maxBatchSize w)"
proof -
  obtain s ss where ss: "fst (scanner_New env contentSplitFunc (reader_bytes w) (Offset w)) = s # ss"
    using assms by (cases "fst (scanner_New env contentSplitFunc (reader_bytes w) (Offset w))") auto
  have zero: "fst (readContents env w) = Some IndexOutOfRange" if "maxBatchSize w = 0"
    using that by (simp add: readContents_def Let_def ss)
  have neg: "fst (readContents env w) = Some MakeSliceLenOutOfRange" if "maxBatchSize w < 0"
    using that by (simp add: readContents_def Let_def)
  have pos: "fst (readContents env w) = None" if "1 \<le> maxBatchSize w"
    using that unfolding readContents_def Let_def
    by (simp add: loop_no_panic nat_add_distrib)
  show ?thesis
  proof (cases "maxBatchSize w" "0::int" rule: linorder_cases)
    case less
    then show ?thesis using neg by simp
  next
    case equal
    then show ?thesis using zero by simp
  next
    case greater
    then show ?thesis using pos by simp
  qed
qed

theorem readContents_needs_positive_maxBatchSize_witness:
  "fst (scanner_New ex_env contentSplitFunc (reader_bytes (ex_world\<lparr>maxBatchSize := 0\<rparr>))
          (Offset (ex_world\<lparr>maxBatchSize := 0\<rparr>))) \<noteq> [] \<and>
   maxBatchSize (ex_world\<lparr>maxBatchSize := 0\<rparr>) = 0 \<and>
   fst (readContents ex_env (ex_world\<lparr>maxBatchSize := 0\<rparr>)) = Some IndexOutOfRange"
proof -
  have h: "fst (scanner_New ex_env contentSplitFunc (reader_bytes (ex_world\<lparr>maxBatchSize := 0\<rparr>))
          (Offset (ex_world\<lparr>maxBatchSize := 0\<rparr>))) \<noteq> []"
    by (simp add: ex_env_def)
  show ?thesis
    using h readContents_needs_positive_maxBatchSize [OF h] by simp
qed

subsection \<open>Batch boundaries\<close>

text \<open>
  C6. With \<^verbatim>\<open>maxBatchSize = 2\<close>, five scanned tokens that all decode, and the scan
  then ending (no cancellation), the content phase makes exactly three flush calls, with
  two, two and one token, and the record counts passed are the count at the start plus
  2, 4 and 5: for a reader that starts at record count 0 the third call receives 5.
\<close>

theorem batch_flush_boundary:
  assumes "maxBatchSize w = 2"
    and "scanner_New env contentSplitFunc (reader_bytes w) (Offset w) = ([s1, s2, s3, s4, s5], ScanEnd rds err p)"
    and "\<forall>s \<in> set [s1, s2, s3, s4, s5]. decodable env s"
  shows "fst (readContents env w) = None \<and>
         map (\<lambda>c. (e_tokens c, e_recordNum c)) (emitted (snd (readContents env w))) =
         map (\<lambda>c. (e_tokens c, e_recordNum c)) (emitted w) @
           [([decoded env s1, decoded env s2], RecordNum w + 2),
            ([decoded env s3, decoded env s4], RecordNum w + 4),
            ([decoded env s5], RecordNum w + 5)]"
  using assms
  by (simp add: readContents_def Let_def decodable_def decoded_def numeral_2_eq_2 numeral_3_eq_3
      split: option.splits)

theorem batch_flush_boundary_witness:
  "maxBatchSize ex_world = 2 \<and>
   scanner_New ex_env contentSplitFunc (reader_bytes ex_world) (Offset ex_world) =
     ([Scan [(10, None)] [1] 2, Scan [] [2] 4, Scan [] [3] 6, Scan [] [4] 8, Scan [] [5] 10],
      ScanEnd [(0, Some EOF)] None 10) \<and>
   list_all (decodable ex_env)
     [Scan [(10, None)] [1] 2, Scan [] [2] 4, Scan [] [3] 6, Scan [] [4] 8, Scan [] [5] 10] \<and>
   RecordNum ex_world = 0 \<and>
   map (\<lambda>c. (e_tokens c, e_recordNum c)) (emitted (snd (readContents ex_env ex_world))) =
     [([[1], [2]], 2), ([[3], [4]], 4), ([[5]], 5)]"
proof -
  have h1: "maxBatchSize ex_world = 2" by (simp add: ex_world_def)
  have h2: "scanner_New ex_env contentSplitFunc (reader_bytes ex_world) (Offset ex_world) =
     ([Scan [(10, None)] [1] 2, Scan [] [2] 4, Scan [] [3] 6, Scan [] [4] 8, Scan [] [5] 10],
      ScanEnd [(0, Some EOF)] None 10)"
    by (simp add: ex_env_def)
  have h3: "\<forall>s \<in> set [Scan [(10, None)] [1] 2, Scan [] [2] 4, Scan [] [3] 6, Scan [] [4] 8,
               Scan [] [5] 10]. decodable ex_env s"
    by (simp add: ex_env_def decodable_def)
  have d: "decoded ex_env s = Bytes s" for s by (simp add: decoded_def ex_env_def)
  have e: "emitted ex_world = []" "RecordNum ex_world = 0" by (simp_all add: ex_world_def)
  show ?thesis
    using h1 h2 h3 batch_flush_boundary [OF h1 h2 h3] by (simp add: d e)
qed

subsection \<open>Offsets passed to the sink\<close>

text \<open>
  The flush calls of the loop are the batches of the decodable scans: the loop refines
  \<open>batches\<close>, given slices of the allocated lengths whose used part holds the tokens
  collected so far.
\<close>

lemma loop_view:
  assumes "1 \<le> maxBatchSize w" "length tb = nat (maxBatchSize w)"
    "length toffs = nat (maxBatchSize w) + 1" "length acc < nat (maxBatchSize w)"
    "take (length acc) tb = map (decoded env) acc"
    "take (length acc + 1) toffs = start # map Pos acc"
  shows "map call_view (emitted (snd (readContents_loop env fin w tb toffs (length acc) ss))) =
         map call_view (emitted w) @
         map (batch_view env (nat (maxBatchSize w)))
           (batches (nat (maxBatchSize w)) (fin \<noteq> CtxDone) start (RecordNum w) acc
              (filter (decodable env) ss))"
  using assms
proof (induction ss arbitrary: w tb toffs acc start)
  case Nil
  then show ?case
    by (simp add: Let_def call_view_def batch_view_def split: last_scan.splits option.splits)
next
  case (Cons s ss)
  let ?n = "length acc"
  let ?m = "nat (maxBatchSize w)"
  let ?fl = "fin \<noteq> CtxDone"
  let ?good = "filter (decodable env) ss"
  let ?tb1 = "tb[?n := fst (decoder_Bytes env (Bytes s))]"
  let ?to1 = "toffs[?n + 1 := Pos s]"
  have tb1: "take ?n ?tb1 = map (decoded env) acc" using Cons.prems by simp
  have to1: "take (?n + 1) ?to1 = start # map Pos acc" using Cons.prems by simp
  have tb2: "take (?n + 1) ?tb1 = map (decoded env) (acc @ [s])"
    using Cons.prems by (simp add: take_Suc_conv_app_nth decoded_def)
  have to2: "take (?n + 2) ?to1 = start # map Pos (acc @ [s])"
    using Cons.prems by (simp add: take_Suc_conv_app_nth)
  have inb: "?n < length tb" "?n + 1 < length toffs" using Cons.prems by simp_all
  show ?case
  proof (cases "decodable env s")
    case False
    then have bad: "snd (decoder_Bytes env (Bytes s)) \<noteq> None" by (simp add: decodable_def)
    let ?w1 = "(logmsg ''failed to decode token'' (foldl Read w (reads s)))\<lparr>Offset := Pos s\<rparr>"
    have step: "readContents_loop env fin w tb toffs ?n (s # ss) =
                readContents_loop env fin ?w1 ?tb1 ?to1 ?n ss"
      using inb bad by (simp add: Let_def)
    have ih: "map call_view (emitted (snd (readContents_loop env fin ?w1 ?tb1 ?to1 ?n ss))) =
          map call_view (emitted ?w1) @ map (batch_view env (nat (maxBatchSize ?w1)))
            (batches (nat (maxBatchSize ?w1)) ?fl start (RecordNum ?w1) acc ?good)"
      by (rule Cons.IH) (use Cons.prems tb1 to1 in simp_all)
    have fr: "maxBatchSize ?w1 = maxBatchSize w" "RecordNum ?w1 = RecordNum w"
      "emitted ?w1 = emitted w" by simp_all
    have b: "batches ?m ?fl start (RecordNum w) acc (filter (decodable env) (s # ss)) =
             batches ?m ?fl start (RecordNum w) acc ?good"
      using False by simp
    show ?thesis by (simp only: step ih fr b)
  next
    case True
    then have ok: "snd (decoder_Bytes env (Bytes s)) = None" by (simp add: decodable_def)
    let ?w2 = "(foldl Read w (reads s))\<lparr>RecordNum := RecordNum (foldl Read w (reads s)) + 1\<rparr>"
    show ?thesis
    proof (cases "maxBatchSize w \<le> int ?n + 1")
      case full: True
      let ?w3 = "(emit env ?w2 (take (?n + 1) ?tb1) ?to1)\<lparr>Offset := Pos s\<rparr>"
      have step: "readContents_loop env fin w tb toffs ?n (s # ss) =
                  readContents_loop env fin ?w3 ?tb1 (?to1[0 := Pos s]) 0 ss"
        using inb ok full Cons.prems(1) by (simp add: Let_def)
      have ih0: "map call_view (emitted (snd (readContents_loop env fin ?w3 ?tb1 (?to1[0 := Pos s])
                    (length ([]::scan list)) ss))) =
          map call_view (emitted ?w3) @ map (batch_view env (nat (maxBatchSize ?w3)))
            (batches (nat (maxBatchSize ?w3)) ?fl (Pos s) (RecordNum ?w3) [] ?good)"
        by (rule Cons.IH) (use Cons.prems in \<open>simp_all add: take_Suc_conv_app_nth\<close>)
      have fr: "maxBatchSize ?w3 = maxBatchSize w" "RecordNum ?w3 = RecordNum w + 1"
        by simp_all
      have em: "map call_view (emitted ?w3) =
                map call_view (emitted w) @ [batch_view env ?m (start, acc @ [s], RecordNum w + 1)]"
        using tb2 to2 inb Cons.prems(3) by (simp add: call_view_def batch_view_def)
      have b: "batches ?m ?fl start (RecordNum w) acc (filter (decodable env) (s # ss)) =
             (start, acc @ [s], RecordNum w + 1) # batches ?m ?fl (Pos s) (RecordNum w + 1) [] ?good"
      proof -
        have "?m \<le> ?n + 1" using full by linarith
        then show ?thesis using True by simp
      qed
      have ih: "map call_view (emitted (snd (readContents_loop env fin ?w3 ?tb1 (?to1[0 := Pos s]) 0 ss))) =
          (map call_view (emitted w) @ [batch_view env ?m (start, acc @ [s], RecordNum w + 1)]) @
           map (batch_view env ?m) (batches ?m ?fl (Pos s) (RecordNum w + 1) [] ?good)"
        using ih0 by (simp only: fr em list.size)
      show ?thesis by (simp only: step ih b) simp
    next
      case notfull: False
      have step: "readContents_loop env fin w tb toffs ?n (s # ss) =
                  readContents_loop env fin ?w2 ?tb1 ?to1 (length (acc @ [s])) ss"
        using inb ok notfull by (simp add: Let_def)
      have ih: "map call_view (emitted (snd (readContents_loop env fin ?w2 ?tb1 ?to1 (length (acc @ [s])) ss))) =
          map call_view (emitted ?w2) @ map (batch_view env (nat (maxBatchSize ?w2)))
            (batches (nat (maxBatchSize ?w2)) ?fl start (RecordNum ?w2) (acc @ [s]) ?good)"
        by (rule Cons.IH) (use Cons.prems notfull tb2 to2 in simp_all)
      have fr: "maxBatchSize ?w2 = maxBatchSize w" "RecordNum ?w2 = RecordNum w + 1"
        "emitted ?w2 = emitted w" by simp_all
      have b: "batches ?m ?fl start (RecordNum w) acc (filter (decodable env) (s # ss)) =
               batches ?m ?fl start (RecordNum w + 1) (acc @ [s]) ?good"
      proof -
        have "\<not> ?m \<le> ?n + 1" using notfull by linarith
        then show ?thesis using True by simp
      qed
      show ?thesis by (simp only: step ih fr b)
    qed
  qed
qed

lemma readContents_view:
  assumes "1 \<le> maxBatchSize w"
    and "scanner_New env contentSplitFunc (reader_bytes w) (Offset w) = (ss, fin)"
  shows "map call_view (new_calls w (snd (readContents env w))) =
         map (batch_view env (nat (maxBatchSize w)))
           (batches (nat (maxBatchSize w)) (fin \<noteq> CtxDone) (Offset w) (RecordNum w) []
              (filter (decodable env) ss))"
proof -
  let ?m = "nat (maxBatchSize w)"
  let ?tb = "replicate ?m ([]::bytes)"
  let ?to = "(replicate (nat (maxBatchSize w + 1)) (0::int))[0 := Offset w]"
  have rc: "readContents env w = readContents_loop env fin w ?tb ?to (length ([]::scan list)) ss"
    using assms by (simp add: readContents_def Let_def)
  have "map call_view (emitted (snd (readContents_loop env fin w ?tb ?to (length ([]::scan list)) ss))) =
        map call_view (emitted w) @
        map (batch_view env ?m)
          (batches ?m (fin \<noteq> CtxDone) (Offset w) (RecordNum w) [] (filter (decodable env) ss))"
    by (rule loop_view) (use assms(1) in \<open>simp_all add: nat_add_distrib\<close>)
  then have "drop (length (emitted w)) (map call_view (emitted (snd (readContents env w)))) =
        map (batch_view env ?m)
          (batches ?m (fin \<noteq> CtxDone) (Offset w) (RecordNum w) [] (filter (decodable env) ss))"
    by (simp only: rc) simp
  then show ?thesis by (simp add: new_calls_def drop_map)
qed

lemma batches_sizes:
  "length acc < m \<Longrightarrow> b \<in> set (batches m atEnd start rn acc ss) \<Longrightarrow>
   1 \<le> length (fst (snd b)) \<and> length (fst (snd b)) \<le> m"
proof (induction ss arbitrary: acc start rn)
  case Nil
  then show ?case by (auto split: if_splits simp: Suc_le_eq)
next
  case (Cons s ss)
  show ?case
  proof (cases "m \<le> length acc + 1")
    case True
    then have "b = (start, acc @ [s], rn + 1) \<or> b \<in> set (batches m atEnd (Pos s) (rn + 1) [] ss)"
      using Cons.prems(2) by simp
    then show ?thesis
    proof
      assume "b = (start, acc @ [s], rn + 1)"
      then show ?thesis using Cons.prems(1) by simp
    next
      assume "b \<in> set (batches m atEnd (Pos s) (rn + 1) [] ss)"
      then show ?thesis using Cons.IH [of "[]" "Pos s" "rn + 1"] Cons.prems(1) by simp
    qed
  next
    case False
    then have "b \<in> set (batches m atEnd start (rn + 1) (acc @ [s]) ss)"
      using Cons.prems(2) by simp
    then show ?thesis using Cons.IH [of "acc @ [s]" start "rn + 1"] False by simp
  qed
qed

lemma batches_concat:
  "concat (map (\<lambda>b. fst (snd b)) (batches m True start rn acc ss)) = acc @ ss"
  by (induction ss arbitrary: acc start rn) simp_all



text \<open>
  The batches by position: batch \<open>k\<close> holds the decodable scans \<open>k * m\<close> up to
  \<open>k * m + m\<close>, and the position recorded with it is the position after the decodable
  scan before it, or the start for the first batch.
\<close>

lemma batches_full:
  "length acc < m \<Longrightarrow> m \<le> length acc + length ss \<Longrightarrow>
   \<exists>rn'. batches m atEnd start rn acc ss =
     (start, acc @ take (m - length acc) ss, rn') #
     batches m atEnd (Pos (ss ! (m - length acc - 1))) rn' [] (drop (m - length acc) ss)"
proof (induction ss arbitrary: acc rn)
  case Nil
  then show ?case by simp
next
  case (Cons s ss)
  show ?case
  proof (cases "m \<le> length acc + 1")
    case True
    then have "m - length acc = 1" using Cons.prems(1) by simp
    then show ?thesis using True by simp
  next
    case False
    define j where "j = m - length acc - 1"
    have mj: "m - length acc = Suc j" "m - length (acc @ [s]) = j" "0 < j"
      using False by (simp_all add: j_def)
    have l: "length (acc @ [s]) < m" using False by simp
    have "m \<le> length (acc @ [s]) + length ss" using Cons.prems(2) by simp
    from Cons.IH [OF l this, of "rn + 1"] obtain rn' where
      ih: "batches m atEnd start (rn + 1) (acc @ [s]) ss =
           (start, (acc @ [s]) @ take j ss, rn') #
           batches m atEnd (Pos (ss ! (j - 1))) rn' [] (drop j ss)"
      unfolding mj(2) by blast
    have n: "(s # ss) ! (Suc j - 1) = ss ! (j - 1)"
      using mj(3) by (simp add: nth_Cons')
    have step: "batches m atEnd start rn acc (s # ss) =
                batches m atEnd start (rn + 1) (acc @ [s]) ss"
      using False by simp
    have "batches m atEnd start rn acc (s # ss) =
          (start, acc @ take (Suc j) (s # ss), rn') #
          batches m atEnd (Pos ((s # ss) ! (Suc j - 1))) rn' [] (drop (Suc j) (s # ss))"
      unfolding step ih n by simp
    then show ?thesis unfolding mj(1) by blast
  qed
qed

lemma batches_short:
  "length acc + length ss < m \<Longrightarrow> b \<in> set (batches m atEnd start rn acc ss) \<Longrightarrow>
   fst b = start \<and> fst (snd b) = acc @ ss"
proof (induction ss arbitrary: acc rn)
  case Nil
  then show ?case by (auto split: if_splits)
next
  case (Cons s ss)
  have "b \<in> set (batches m atEnd start (rn + 1) (acc @ [s]) ss)"
    using Cons.prems by simp
  moreover have "length (acc @ [s]) + length ss < m" using Cons.prems(1) by simp
  ultimately have "fst b = start \<and> fst (snd b) = (acc @ [s]) @ ss"
    using Cons.IH by blast
  then show ?case by simp
qed

lemma batches_short_length:
  "length acc + length ss < m \<Longrightarrow> length (batches m atEnd start rn acc ss) \<le> 1"
  by (induction ss arbitrary: acc rn) auto

lemma batches_nth:
  "0 < m \<Longrightarrow> k < length (batches m atEnd start rn [] ss) \<Longrightarrow>
   fst (batches m atEnd start rn [] ss ! k) = (start # map Pos ss) ! (k * m) \<and>
   fst (snd (batches m atEnd start rn [] ss ! k)) = take m (drop (k * m) ss)"
proof (induction k arbitrary: start rn ss)
  case 0
  show ?case
  proof (cases "m \<le> length ss")
    case True
    from batches_full [of "[]" m ss atEnd start rn] True 0(1) obtain rn' where
      "batches m atEnd start rn [] ss =
         (start, take m ss, rn') # batches m atEnd (Pos (ss ! (m - 1))) rn' [] (drop m ss)"
      by auto
    then show ?thesis by simp
  next
    case False
    then have sh: "length ([]::scan list) + length ss < m" by simp
    have "batches m atEnd start rn [] ss ! 0 \<in> set (batches m atEnd start rn [] ss)"
      using 0(2) by (rule nth_mem)
    from batches_short [OF sh this] show ?thesis using False by simp
  qed
next
  case (Suc k)
  have full: "m \<le> length ss"
  proof (rule ccontr)
    assume "\<not> m \<le> length ss"
    then have "length ([]::scan list) + length ss < m" by simp
    from batches_short_length [OF this, of atEnd start rn] Suc.prems(2) show False by simp
  qed
  from batches_full [of "[]" m ss atEnd start rn] full Suc.prems(1) obtain rn' where
    eq: "batches m atEnd start rn [] ss =
         (start, take m ss, rn') # batches m atEnd (Pos (ss ! (m - 1))) rn' [] (drop m ss)"
    by auto
  let ?rest = "batches m atEnd (Pos (ss ! (m - 1))) rn' [] (drop m ss)"
  have k: "k < length ?rest" using Suc.prems(2) eq by simp
  from Suc.IH [OF Suc.prems(1) k]
  have ih: "fst (?rest ! k) = (Pos (ss ! (m - 1)) # map Pos (drop m ss)) ! (k * m)"
    "fst (snd (?rest ! k)) = take m (drop (k * m) (drop m ss))"
    by simp_all
  have m1: "m - 1 < length ss" using full Suc.prems(1) by simp
  have "drop (m - 1) (map Pos ss) = Pos (ss ! (m - 1)) # map Pos (drop m ss)"
    using m1 Suc.prems(1) by (simp add: Cons_nth_drop_Suc [symmetric] drop_map)
  then have "(Pos (ss ! (m - 1)) # map Pos (drop m ss)) ! (k * m) =
             drop (m - 1) (map Pos ss) ! (k * m)"
    by simp
  also have "\<dots> = map Pos ss ! (m - 1 + k * m)"
    using m1 by (simp add: nth_drop)
  also have "\<dots> = (start # map Pos ss) ! (Suc k * m)"
    using Suc.prems(1) by (simp add: nth_Cons')
  finally have a: "fst (?rest ! k) = (start # map Pos ss) ! (Suc k * m)" using ih(1) by simp
  have b: "fst (snd (?rest ! k)) = take m (drop (Suc k * m) ss)"
    using ih(2) by (simp add: add.commute)
  show ?case unfolding eq using a b by simp
qed


lemma zip_positions_nth:
  "j < length ss \<Longrightarrow> fst (zip (start # map Pos ss) ss ! j) = (start # map Pos ss) ! j"
  by simp

lemma pos_before_all_decodable:
  assumes "\<forall>s \<in> set ss. decodable env s" "j < length ss"
  shows "pos_before env start ss j = (start # map Pos ss) ! j"
proof -
  have "\<forall>x \<in> set (zip (start # map Pos ss) ss). decodable env (snd x)"
    using assms(1) by (auto dest: set_zip_rightD)
  then have "filter (\<lambda>x. decodable env (snd x)) (zip (start # map Pos ss) ss) =
             zip (start # map Pos ss) ss"
    by simp
  then show ?thesis using assms(2) by (simp add: pos_before_def)
qed

text \<open>
  C2 (as amended). Let \<^verbatim>\<open>maxBatchSize\<close> be at least 1. In every flush call of the
  content phase, numbered \<open>k\<close> in the order of the calls, the \<^verbatim>\<open>tokenOffsets\<close> slice
  passed to the sink has length \<^verbatim>\<open>maxBatchSize + 1\<close> (the whole slice is passed: that
  is \<^verbatim>\<open>len(tokenBodies) + 1\<close> for a full batch and more for the shorter batch flushed
  when the scan ends); the tokens are the decoded bodies of the next up to
  \<^verbatim>\<open>maxBatchSize\<close> decodable scans; and element \<open>i + 1\<close>, for \<open>i\<close> below the number
  of tokens, is the scanner position right after token \<open>i\<close>. Element 0 is the scanner
  position before the first token of the batch whenever that position is where the
  previous batch ended (the position after the decodable token before it, or the start
  of the scan for the first batch); this is so in particular when every scanned token
  decodes. Nothing is said of element 0 when an undecodable token was skipped in
  between.
\<close>

theorem flush_offsets_shape:
  assumes "1 \<le> maxBatchSize w"
    and "scanner_New env contentSplitFunc (reader_bytes w) (Offset w) = (ss, fin)"
  shows "\<forall>k < length (new_calls w (snd (readContents env w))).
           length (e_tokenOffsets (new_calls w (snd (readContents env w)) ! k)) =
             nat (maxBatchSize w) + 1 \<and>
           1 \<le> length (e_tokens (new_calls w (snd (readContents env w)) ! k)) \<and>
           length (e_tokens (new_calls w (snd (readContents env w)) ! k)) \<le> nat (maxBatchSize w) \<and>
           e_tokens (new_calls w (snd (readContents env w)) ! k) =
             map (decoded env)
               (take (nat (maxBatchSize w))
                  (drop (k * nat (maxBatchSize w)) (filter (decodable env) ss))) \<and>
           (\<forall>i < length (e_tokens (new_calls w (snd (readContents env w)) ! k)).
              e_tokenOffsets (new_calls w (snd (readContents env w)) ! k) ! (i + 1) =
                Pos (filter (decodable env) ss ! (k * nat (maxBatchSize w) + i))) \<and>
           (pos_before env (Offset w) ss (k * nat (maxBatchSize w)) =
              (Offset w # map Pos (filter (decodable env) ss)) ! (k * nat (maxBatchSize w)) \<longrightarrow>
            e_tokenOffsets (new_calls w (snd (readContents env w)) ! k) ! 0 =
              pos_before env (Offset w) ss (k * nat (maxBatchSize w))) \<and>
           ((\<forall>s \<in> set ss. decodable env s) \<longrightarrow>
            pos_before env (Offset w) ss (k * nat (maxBatchSize w)) =
              (Offset w # map Pos ss) ! (k * nat (maxBatchSize w)) \<and>
            e_tokenOffsets (new_calls w (snd (readContents env w)) ! k) ! 0 =
              pos_before env (Offset w) ss (k * nat (maxBatchSize w)))"
proof (intro allI impI)
  fix k
  let ?m = "nat (maxBatchSize w)"
  let ?good = "filter (decodable env) ss"
  let ?bs = "batches ?m (fin \<noteq> CtxDone) (Offset w) (RecordNum w) [] ?good"
  let ?new = "new_calls w (snd (readContents env w))"
  assume k: "k < length ?new"
  have view: "map call_view ?new = map (batch_view env ?m) ?bs"
    using assms by (rule readContents_view)
  have len: "length ?new = length ?bs"
    using view by (metis length_map)
  have kb: "k < length ?bs" using k len by simp
  have cv: "call_view (?new ! k) = batch_view env ?m (?bs ! k)"
    using view k kb by (metis nth_map)
  define c where "c = ?new ! k"
  define b where "b = ?bs ! k"
  have m: "0 < ?m" using assms(1) by simp
  have bn: "fst b = (Offset w # map Pos ?good) ! (k * ?m)"
    "fst (snd b) = take ?m (drop (k * ?m) ?good)"
    unfolding b_def using batches_nth [OF m kb] by simp_all
  have sz: "1 \<le> length (fst (snd b)) \<and> length (fst (snd b)) \<le> ?m"
    unfolding b_def by (rule batches_sizes [OF _ nth_mem [OF kb]]) (use m in simp)
  have cv': "call_view c = batch_view env ?m b" using cv by (simp add: c_def b_def)
  have toks: "e_tokens c = map (decoded env) (fst (snd b))"
    using cv' unfolding call_view_def batch_view_def by (rule Pair_inject)
  have offs: "take (length (e_tokens c) + 1) (e_tokenOffsets c) = fst b # map Pos (fst (snd b))"
    using cv' unfolding call_view_def batch_view_def by (elim Pair_inject)
  have olen: "length (e_tokenOffsets c) = ?m + 1"
    using cv' unfolding call_view_def batch_view_def by (elim Pair_inject)
  have nth: "e_tokenOffsets c ! j = (fst b # map Pos (fst (snd b))) ! j"
    if "j < length (e_tokens c) + 1" for j
    using that offs by (metis nth_take)
  have z: "e_tokenOffsets c ! 0 = fst b" using nth [of 0] by simp
  have inr: "k * ?m < length ?good"
  proof (rule ccontr)
    assume "\<not> k * ?m < length ?good"
    then have "drop (k * ?m) ?good = []" by simp
    then have "fst (snd b) = []" by (simp only: bn(2) take_Nil)
    then show False using sz by simp
  qed
  have el: "e_tokenOffsets c ! (i + 1) = Pos (?good ! (k * ?m + i))"
    if i: "i < length (e_tokens c)" for i
  proof -
    have il: "i < length (take ?m (drop (k * ?m) ?good))" using i toks bn(2) by simp
    have "e_tokenOffsets c ! (i + 1) = Pos (fst (snd b) ! i)"
      using nth [of "i + 1"] i toks by simp
    also have "fst (snd b) ! i = drop (k * ?m) ?good ! i"
      using il by (simp add: bn(2))
    also have "\<dots> = ?good ! (k * ?m + i)"
      using inr by (simp add: nth_drop)
    finally show ?thesis .
  qed
  have cond: "e_tokenOffsets c ! 0 = pos_before env (Offset w) ss (k * ?m)"
    if "pos_before env (Offset w) ss (k * ?m) = (Offset w # map Pos ?good) ! (k * ?m)"
    using that z bn(1) by simp
  have alld: "pos_before env (Offset w) ss (k * ?m) = (Offset w # map Pos ss) ! (k * ?m) \<and>
              e_tokenOffsets c ! 0 = pos_before env (Offset w) ss (k * ?m)"
    if d: "\<forall>s \<in> set ss. decodable env s"
  proof -
    have g: "?good = ss" using d by simp
    have "pos_before env (Offset w) ss (k * ?m) = (Offset w # map Pos ss) ! (k * ?m)"
      using inr g by (intro pos_before_all_decodable [OF d]) simp
    then show ?thesis using z bn(1) g by simp
  qed
  show "length (e_tokenOffsets (?new ! k)) = ?m + 1 \<and>
        1 \<le> length (e_tokens (?new ! k)) \<and> length (e_tokens (?new ! k)) \<le> ?m \<and>
        e_tokens (?new ! k) = map (decoded env) (take ?m (drop (k * ?m) ?good)) \<and>
        (\<forall>i < length (e_tokens (?new ! k)).
           e_tokenOffsets (?new ! k) ! (i + 1) = Pos (?good ! (k * ?m + i))) \<and>
        (pos_before env (Offset w) ss (k * ?m) = (Offset w # map Pos ?good) ! (k * ?m) \<longrightarrow>
         e_tokenOffsets (?new ! k) ! 0 = pos_before env (Offset w) ss (k * ?m)) \<and>
        ((\<forall>s \<in> set ss. decodable env s) \<longrightarrow>
         pos_before env (Offset w) ss (k * ?m) = (Offset w # map Pos ss) ! (k * ?m) \<and>
         e_tokenOffsets (?new ! k) ! 0 = pos_before env (Offset w) ss (k * ?m))"
    unfolding c_def [symmetric]
    using olen sz toks bn(2) el cond alld by simp
qed


theorem flush_offsets_shape_witness:
  "1 \<le> maxBatchSize ex_world \<and>
   scanner_New ex_env contentSplitFunc (reader_bytes ex_world) (Offset ex_world) =
     ([Scan [(10, None)] [1] 2, Scan [] [2] 4, Scan [] [3] 6, Scan [] [4] 8, Scan [] [5] 10],
      ScanEnd [(0, Some EOF)] None 10) \<and>
   list_all (decodable ex_env)
     [Scan [(10, None)] [1] 2, Scan [] [2] 4, Scan [] [3] 6, Scan [] [4] 8, Scan [] [5] 10] \<and>
   2 < length (new_calls ex_world (snd (readContents ex_env ex_world))) \<and>
   length (e_tokenOffsets (new_calls ex_world (snd (readContents ex_env ex_world)) ! 2)) = 3 \<and>
   e_tokens (new_calls ex_world (snd (readContents ex_env ex_world)) ! 2) = [[5]] \<and>
   e_tokenOffsets (new_calls ex_world (snd (readContents ex_env ex_world)) ! 2) ! 0 = 8 \<and>
   e_tokenOffsets (new_calls ex_world (snd (readContents ex_env ex_world)) ! 2) ! 1 = 10 \<and>
   scanner_New ex_env_undecodable contentSplitFunc (reader_bytes ex_world) (Offset ex_world) =
     ([Scan [] [1] 2, Scan [] [] 3, Scan [] [2] 5], ScanEnd [] None 5) \<and>
   0 < length (new_calls ex_world (snd (readContents ex_env_undecodable ex_world))) \<and>
   pos_before ex_env_undecodable (Offset ex_world) [Scan [] [1] 2, Scan [] [] 3, Scan [] [2] 5] 0 = 0 \<and>
   e_tokens (new_calls ex_world (snd (readContents ex_env_undecodable ex_world)) ! 0) = [[1], [2]] \<and>
   e_tokenOffsets (new_calls ex_world (snd (readContents ex_env_undecodable ex_world)) ! 0) ! 0 = 0 \<and>
   e_tokenOffsets (new_calls ex_world (snd (readContents ex_env_undecodable ex_world)) ! 0) ! 2 = 5"
proof -
  let ?ss = "[Scan [(10, None)] [1] 2, Scan [] [2] 4, Scan [] [3] 6, Scan [] [4] 8, Scan [] [5] 10]"
  let ?us = "[Scan [] [1] 2, Scan [] [] 3, Scan [] [2] 5]"
  let ?new = "new_calls ex_world (snd (readContents ex_env ex_world))"
  let ?newu = "new_calls ex_world (snd (readContents ex_env_undecodable ex_world))"
  have h1: "1 \<le> maxBatchSize ex_world" by (simp add: ex_world_def)
  have h2: "scanner_New ex_env contentSplitFunc (reader_bytes ex_world) (Offset ex_world) =
     (?ss, ScanEnd [(0, Some EOF)] None 10)"
    by (simp add: ex_env_def)
  have u2: "scanner_New ex_env_undecodable contentSplitFunc (reader_bytes ex_world)
              (Offset ex_world) = (?us, ScanEnd [] None 5)"
    by (simp add: ex_env_undecodable_def)
  have d: "decoded ex_env s = Bytes s" "decodable ex_env s \<longleftrightarrow> Bytes s \<noteq> []"
    "decoded ex_env_undecodable s = Bytes s" "decodable ex_env_undecodable s \<longleftrightarrow> Bytes s \<noteq> []"
    for s
    by (simp_all add: decoded_def decodable_def ex_env_def ex_env_undecodable_def)
  have e: "maxBatchSize ex_world = 2" "Offset ex_world = 0" by (simp_all add: ex_world_def)
  have all: "\<forall>s \<in> set ?ss. decodable ex_env s" by (simp add: d)
  have l: "length ?new = 3"
    by (simp add: new_calls_def readContents_def ex_env_def ex_world_def Let_def Read_def Len_def
        numeral_2_eq_2 numeral_3_eq_3)
  have lu: "length ?newu = 1"
    by (simp add: new_calls_def readContents_def ex_env_undecodable_def ex_env_def ex_world_def
        Let_def numeral_2_eq_2 numeral_3_eq_3)
  have k2: "2 < length ?new" using l by simp
  have k0: "0 < length ?newu" using lu by simp
  note T = flush_offsets_shape [OF h1 h2, rule_format, OF k2]
  note U = flush_offsets_shape [OF h1 u2, rule_format, OF k0]
  have pb: "pos_before ex_env_undecodable (Offset ex_world) ?us 0 = 0"
    by (simp add: pos_before_def d e)
  have t1: "length (e_tokenOffsets (?new ! 2)) = 3" using T by (simp add: e)
  have t2: "e_tokens (?new ! 2) = [[5]]" using T by (simp add: e d)
  have t3: "e_tokenOffsets (?new ! 2) ! 0 = 8"
    using T all by (simp add: e d)
  have t4: "e_tokenOffsets (?new ! 2) ! 1 = 10"
    using T t2 by (simp add: e d)
  have u1: "e_tokens (?newu ! 0) = [[1], [2]]" using U by (simp add: e d)
  have u3: "e_tokenOffsets (?newu ! 0) ! 0 = 0" using U pb by (simp add: e d)
  have u4: "e_tokenOffsets (?newu ! 0) ! 2 = 5"
  proof -
    have "\<forall>i < length (e_tokens (?newu ! 0)).
            e_tokenOffsets (?newu ! 0) ! (i + 1) =
              Pos (filter (decodable ex_env_undecodable) ?us ! (0 * nat (maxBatchSize ex_world) + i))"
      using U by blast
    from this [rule_format, of 1] show ?thesis by (simp add: u1 d numeral_2_eq_2)
  qed
  show ?thesis
    using h1 h2 all k2 t1 t2 t3 t4 u2 k0 pb u1 u3 u4 by (simp add: list_all_iff)
qed

text \<open>
  The claim as stated fails for the last batch of the example: one token, three offsets.
  It also fails for element 0 when an undecodable token comes right before the first
  token of a batch: the scanner is at position 1 before the token, and element 0 is 0.
\<close>

theorem tokenOffsets_length_counterexample:
  "e_tokens (last (emitted (snd (readContents ex_env ex_world)))) = [[5]] \<and>
   e_tokenOffsets (last (emitted (snd (readContents ex_env ex_world)))) = [8, 10, 8] \<and>
   length (e_tokenOffsets (last (emitted (snd (readContents ex_env ex_world))))) \<noteq>
     length (e_tokens (last (emitted (snd (readContents ex_env ex_world))))) + 1 \<and>
   pos_before ex_env_undecodable_first (Offset ex_world) [Scan [] [] 1, Scan [] [1] 3] 0 = 1 \<and>
   e_tokens (last (emitted (snd (readContents ex_env_undecodable_first ex_world)))) = [[1]] \<and>
   e_tokenOffsets (last (emitted (snd (readContents ex_env_undecodable_first ex_world)))) =
     [0, 3, 0]"
proof -
  have a: "e_tokens (last (emitted (snd (readContents ex_env ex_world)))) = [[5]] \<and>
   e_tokenOffsets (last (emitted (snd (readContents ex_env ex_world)))) = [8, 10, 8] \<and>
   length (e_tokenOffsets (last (emitted (snd (readContents ex_env ex_world))))) \<noteq>
     length (e_tokens (last (emitted (snd (readContents ex_env ex_world))))) + 1"
    by (simp add: readContents_def ex_env_def ex_world_def Let_def Read_def Len_def
      numeral_2_eq_2 numeral_3_eq_3)
  have b: "pos_before ex_env_undecodable_first (Offset ex_world) [Scan [] [] 1, Scan [] [1] 3] 0 = 1"
    by (simp add: pos_before_def decodable_def ex_env_undecodable_first_def ex_env_def)
  have c: "e_tokens (last (emitted (snd (readContents ex_env_undecodable_first ex_world)))) = [[1]] \<and>
   e_tokenOffsets (last (emitted (snd (readContents ex_env_undecodable_first ex_world)))) =
     [0, 3, 0]"
    by (simp add: readContents_def ex_env_undecodable_first_def ex_env_def ex_world_def Let_def
      Read_def Len_def emit_def logmsg_def numeral_2_eq_2 numeral_3_eq_3)
  from a b c show ?thesis by blast
qed

subsection \<open>Fingerprint refresh and validation\<close>

text \<open>
  C4. While the stored fingerprint is not empty, \<^verbatim>\<open>updateFingerprint\<close> leaves a
  fingerprint that starts with the stored one: a fingerprint re-derived from the file
  that does not start with the stored one is discarded and the stored one is kept.
\<close>

theorem updateFingerprint_keeps_prefix:
  assumes "0 < Len (Fingerprint w)"
  shows "StartsWith (Fingerprint (updateFingerprint env w)) (Fingerprint w) \<and>
         (\<forall>f fp. osFile w = Some f \<longrightarrow>
            NewFromFile env f (fingerprintSize w) (compression w \<noteq> []) = Inr fp \<longrightarrow>
            \<not> StartsWith fp (Fingerprint w) \<longrightarrow>
            Fingerprint (updateFingerprint env w) = Fingerprint w)"
  using assms
  by (auto simp: updateFingerprint_def Let_def StartsWith_def split: option.splits sum.splits)

theorem updateFingerprint_keeps_prefix_witness:
  "0 < Len (Fingerprint ex_world) \<and>
   osFile (ex_world\<lparr>osFile := Some \<lparr>f_bytes = [7, 10], f_pos = 0\<rparr>\<rparr>) =
     Some \<lparr>f_bytes = [7, 10], f_pos = 0\<rparr> \<and>
   NewFromFile ex_env \<lparr>f_bytes = [7, 10], f_pos = 0\<rparr> (fingerprintSize ex_world)
     (compression ex_world \<noteq> []) = Inr [7, 10] \<and>
   \<not> StartsWith [7, 10] (Fingerprint ex_world) \<and>
   Fingerprint (updateFingerprint ex_env (ex_world\<lparr>osFile := Some \<lparr>f_bytes = [7, 10], f_pos = 0\<rparr>\<rparr>)) =
     [1, 10]"
proof -
  let ?w = "ex_world\<lparr>osFile := Some \<lparr>f_bytes = [7, 10], f_pos = 0\<rparr>\<rparr>"
  have h: "0 < Len (Fingerprint ?w)" by (simp add: ex_world_def Len_def)
  have n: "NewFromFile ex_env \<lparr>f_bytes = [7, 10], f_pos = 0\<rparr> (fingerprintSize ?w)
     (compression ?w \<noteq> []) = Inr [7, 10]"
    by (simp add: NewFromFile_def ex_env_def ex_world_def)
  have s: "\<not> StartsWith [7, 10] (Fingerprint ?w)"
    by (simp add: StartsWith_def ex_world_def)
  have f: "Fingerprint ?w = [1, 10]" by (simp add: ex_world_def)
  show ?thesis
    using h n s f updateFingerprint_keeps_prefix [OF h, of ex_env] by simp
qed

text \<open>
  C9. \<^verbatim>\<open>Validate\<close> returns false when the file handle is nil; otherwise it returns
  true exactly when a fingerprint can be re-derived from the file and starts with the
  stored one. In particular it returns false when the leading bytes of the file no
  longer extend the stored fingerprint. It changes nothing of the reader.
\<close>

theorem Validate_spec:
  "(osFile w = None \<longrightarrow> \<not> fst (Validate env w)) \<and>
   (\<forall>f. osFile w = Some f \<longrightarrow>
      fst (Validate env w) =
        (\<exists>fp. NewFromFile env f (fingerprintSize w) (compression w \<noteq> []) = Inr fp \<and>
              StartsWith fp (Fingerprint w))) \<and>
   (\<forall>f. osFile w = Some f \<longrightarrow>
      \<not> prefix (Fingerprint w) (take (nat (fingerprintSize w)) (f_bytes f)) \<longrightarrow>
      \<not> fst (Validate env w)) \<and>
   snd (Validate env w) = w"
  by (auto simp: Validate_def NewFromFile_def StartsWith_def split: option.splits sum.splits)

theorem Validate_spec_witness:
  "osFile (ex_world\<lparr>osFile := None\<rparr>) = None \<and>
   \<not> fst (Validate ex_env (ex_world\<lparr>osFile := None\<rparr>)) \<and>
   osFile ex_world = Some \<lparr>f_bytes = [1, 10, 2, 10, 3, 10, 4, 10, 5, 10], f_pos = 0\<rparr> \<and>
   fst (Validate ex_env ex_world) \<and>
   osFile (ex_world\<lparr>osFile := Some \<lparr>f_bytes = [1], f_pos = 0\<rparr>\<rparr>) = Some \<lparr>f_bytes = [1], f_pos = 0\<rparr> \<and>
   \<not> prefix (Fingerprint ex_world) (take (nat (fingerprintSize ex_world)) [1]) \<and>
   \<not> fst (Validate ex_env (ex_world\<lparr>osFile := Some \<lparr>f_bytes = [1], f_pos = 0\<rparr>\<rparr>))"
proof -
  have a: "osFile (ex_world\<lparr>osFile := None\<rparr>) = None" by simp
  have b: "osFile ex_world = Some \<lparr>f_bytes = [1, 10, 2, 10, 3, 10, 4, 10, 5, 10], f_pos = 0\<rparr>"
    by (simp add: ex_world_def)
  have c: "\<not> prefix (Fingerprint ex_world) (take (nat (fingerprintSize ex_world)) [1])"
    by (simp add: ex_world_def)
  have d: "NewFromFile ex_env \<lparr>f_bytes = [1, 10, 2, 10, 3, 10, 4, 10, 5, 10], f_pos = 0\<rparr>
             (fingerprintSize ex_world) (compression ex_world \<noteq> []) =
           Inr [1, 10, 2, 10, 3, 10, 4, 10, 5, 10]"
    by (simp add: NewFromFile_def ex_env_def ex_world_def)
  have e: "StartsWith [1, 10, 2, 10, 3, 10, 4, 10, 5, 10] (Fingerprint ex_world)"
    by (simp add: StartsWith_def ex_world_def)
  have 1: "\<not> fst (Validate ex_env (ex_world\<lparr>osFile := None\<rparr>))"
    using Validate_spec [of "ex_world\<lparr>osFile := None\<rparr>" ex_env] a by blast
  have 2: "fst (Validate ex_env ex_world)"
    using Validate_spec [of ex_world ex_env] b d e by blast
  have 3: "\<not> fst (Validate ex_env (ex_world\<lparr>osFile := Some \<lparr>f_bytes = [1], f_pos = 0\<rparr>\<rparr>))"
  proof -
    let ?w = "ex_world\<lparr>osFile := Some \<lparr>f_bytes = [1], f_pos = 0\<rparr>\<rparr>"
    have o: "osFile ?w = Some \<lparr>f_bytes = [1], f_pos = 0\<rparr>" by simp
    have p: "\<not> prefix (Fingerprint ?w)
               (take (nat (fingerprintSize ?w)) (f_bytes \<lparr>f_bytes = [1], f_pos = 0\<rparr>))"
      using c by simp
    show ?thesis using Validate_spec [of ?w ex_env] o p by blast
  qed
  show ?thesis using a b c 1 2 3 by simp
qed

subsection \<open>Offset of a gzip file\<close>

text \<open>Facts about \<^verbatim>\<open>createGzipReader\<close> and the deferred assignment of the offset.\<close>

lemma createGzipReader_locked:
  "fst (createGzipReader env (w\<lparr>locked := b\<rparr>)) = fst (createGzipReader env w)"
  by (simp add: createGzipReader_def Let_def logmsg_def split: option.splits sum.splits)

lemma createGzipReader_eof:
  "fst (createGzipReader env w) = Inr eof \<Longrightarrow>
   \<exists>f. osFile w = Some f \<and> eof = int (length (f_bytes f))"
  by (auto simp: createGzipReader_def Let_def split: option.splits sum.splits)

lemma ReadToEnd_gzip_Offset:
  "fst (createGzipReader env w) = Inr eof \<Longrightarrow> Offset (snd (ReadToEnd_gzip env w)) = eof"
  by (simp add: ReadToEnd_gzip_def Let_def)

text \<open>
  C3. In gzip mode, or in auto mode for a file of type \<^verbatim>\<open>.gz\<close>, whenever
  \<^verbatim>\<open>createGzipReader\<close> succeeds (the lock, if configured, was taken), \<^verbatim>\<open>ReadToEnd\<close>
  leaves the offset at the size of the file as \<^verbatim>\<open>Stat\<close> reported it at the start of
  the call, on every way out: a failed seek, the header phase ending the cycle, the
  content phase returning or panicking.
\<close>

theorem gzip_offset_set_to_eof:
  assumes "compression w = ''gzip'' \<or> (compression w = ''auto'' \<and> FileType w = gzipExtension)"
    and "acquireFSLock w \<longrightarrow> tryLockFile env"
    and "fst (createGzipReader env w) = Inr currentEOF"
  shows "Offset (snd (ReadToEnd env w)) = currentEOF \<and>
         (\<exists>f. osFile w = Some f \<and> currentEOF = int (length (f_bytes f)))"
proof -
  have sw: "Offset (snd (ReadToEnd_switch env w')) = currentEOF"
    if "fst (createGzipReader env w') = Inr currentEOF" "compression w' = compression w"
       "FileType w' = FileType w" for w'
    using that assms(1) by (auto simp: ReadToEnd_switch_def ReadToEnd_gzip_Offset)
  have "Offset (snd (ReadToEnd env w)) = currentEOF"
  proof (cases "acquireFSLock w")
    case True
    then show ?thesis
      using assms(2,3) sw [of "w\<lparr>locked := True\<rparr>"]
      by (simp add: ReadToEnd_def Let_def createGzipReader_locked)
  next
    case False
    then show ?thesis using assms(3) sw [of w] by (simp add: ReadToEnd_def)
  qed
  then show ?thesis using createGzipReader_eof [OF assms(3)] by simp
qed

theorem gzip_offset_set_to_eof_witness:
  "compression (ex_world\<lparr>compression := ''gzip'', acquireFSLock := True\<rparr>) = ''gzip'' \<and>
   acquireFSLock (ex_world\<lparr>compression := ''gzip'', acquireFSLock := True\<rparr>) \<and>
   tryLockFile ex_env \<and>
   fst (createGzipReader ex_env (ex_world\<lparr>compression := ''gzip'', acquireFSLock := True\<rparr>)) = Inr 10 \<and>
   Offset (snd (ReadToEnd ex_env (ex_world\<lparr>compression := ''gzip'', acquireFSLock := True\<rparr>))) = 10"
proof -
  let ?w = "ex_world\<lparr>compression := ''gzip'', acquireFSLock := True\<rparr>"
  have h1: "compression ?w = ''gzip'' \<or> (compression ?w = ''auto'' \<and> FileType ?w = gzipExtension)"
    by simp
  have h2: "acquireFSLock ?w \<longrightarrow> tryLockFile ex_env" by (simp add: ex_env_def)
  have h3: "fst (createGzipReader ex_env ?w) = Inr 10"
    by (simp add: createGzipReader_def ex_env_def ex_world_def Let_def)
  show ?thesis
    using h3 gzip_offset_set_to_eof [OF h1 h2 h3] by (simp add: ex_env_def)
qed

subsection \<open>End of the header\<close>

text \<open>
  The header phase. Finalization keeps the offset, drops the pipeline, sets the latch and
  seeks the file to the offset; a header token that does not end the header moves the
  offset to the scanner position after it.
\<close>

lemma finalizeHeader_facts:
  "Offset (snd (finalizeHeader env w)) = Offset w"
  "RecordNum (snd (finalizeHeader env w)) = RecordNum w"
  "FileAttributes (snd (finalizeHeader env w)) = FileAttributes w"
  "emitted (snd (finalizeHeader env w)) = emitted w"
  "headerReader (snd (finalizeHeader env w)) = None"
  "HeaderFinalized (snd (finalizeHeader env w))"
  "headerStops (snd (finalizeHeader env w)) = headerStops w + 1"
  "fst (finalizeHeader env w) \<longleftrightarrow> osFile w = None \<or> Seek_err env (Offset w) \<noteq> None"
  "\<not> fst (finalizeHeader env w) \<Longrightarrow>
     map_option f_pos (osFile (snd (finalizeHeader env w))) = Some (Offset w)"
  by (auto simp: finalizeHeader_def file_Seek_def Let_def logmsg_def split: option.splits)

lemma readHeader_loop_step:
  assumes "\<not> (snd (DecodeAsString env (Bytes h)) = None \<and>
              snd (Process env (fst (DecodeAsString env (Bytes h))) (FileAttributes w)) =
                Some ErrEndOfHeader)"
  shows "\<exists>w'. readHeader_loop env fin w (h # rest) = readHeader_loop env fin w' rest \<and>
           Offset w' = Pos h \<and> headerReader w' = headerReader w \<and>
           headerStops w' = headerStops w \<and> emitted w' = emitted w \<and>
           RecordNum w' = RecordNum w \<and> HeaderFinalized w' = HeaderFinalized w \<and>
           (osFile w' = None \<longleftrightarrow> osFile w = None) \<and>
           (snd (DecodeAsString env (Bytes h)) \<noteq> None \<longrightarrow> FileAttributes w' = FileAttributes w)"
proof (cases "snd (DecodeAsString env (Bytes h)) = None")
  case False
  let ?w' = "(logmsg ''failed to decode header token'' (foldl Read w (reads h)))\<lparr>Offset := Pos h\<rparr>"
  have "readHeader_loop env fin w (h # rest) = readHeader_loop env fin ?w' rest"
    using False by (simp add: Let_def)
  then show ?thesis by (intro exI [of _ ?w']) simp
next
  case True
  let ?pr = "Process env (fst (DecodeAsString env (Bytes h))) (FileAttributes w)"
  let ?w2 = "(foldl Read w (reads h))\<lparr>FileAttributes := fst ?pr\<rparr>"
  show ?thesis
  proof (cases "snd ?pr")
    case None
    let ?w' = "?w2\<lparr>Offset := Pos h\<rparr>"
    have "readHeader_loop env fin w (h # rest) = readHeader_loop env fin ?w' rest"
      using True None by (simp add: Let_def)
    then show ?thesis using True by (intro exI [of _ ?w']) simp
  next
    case (Some e)
    then have ne: "e \<noteq> ErrEndOfHeader" using assms True by auto
    let ?w' = "(logmsg ''failed to process header token'' ?w2)\<lparr>Offset := Pos h\<rparr>"
    have "readHeader_loop env fin w (h # rest) = readHeader_loop env fin ?w' rest"
      using True Some ne by (simp add: Let_def)
    then show ?thesis using True by (intro exI [of _ ?w']) simp
  qed
qed

text \<open>
  What the header phase leaves when the pipeline reports the end of the header. Let the
  pipeline be present, let the header scanner deliver the tokens \<open>hs\<close>, none of which
  ends the header, and then a token \<open>s\<close> that does. Then the offset is the scanner
  position after the last token of \<open>hs\<close> (the offset on entry when \<open>hs\<close> is empty):
  it is not advanced past \<open>s\<close>. The pipeline is stopped once and dropped,
  \<^verbatim>\<open>HeaderFinalized\<close> is set, nothing is sent to the sink, and the file is sought to
  the offset: when the seek succeeds the phase returns false and the position of the
  file is the offset; when it fails the phase returns true.
\<close>

lemma readHeader_loop_end_of_header:
  assumes "headerReader w \<noteq> None"
    and "\<forall>h \<in> set hs. snd (DecodeAsString env (Bytes h)) = None \<longrightarrow>
           (\<forall>a. snd (Process env (fst (DecodeAsString env (Bytes h))) a) \<noteq> Some ErrEndOfHeader)"
    and "snd (DecodeAsString env (Bytes s)) = None"
    and "\<forall>a. snd (Process env (fst (DecodeAsString env (Bytes s))) a) = Some ErrEndOfHeader"
  shows "Offset (snd (readHeader_loop env fin w (hs @ s # ss))) =
           (if hs = [] then Offset w else Pos (last hs)) \<and>
         headerReader (snd (readHeader_loop env fin w (hs @ s # ss))) = None \<and>
         HeaderFinalized (snd (readHeader_loop env fin w (hs @ s # ss))) \<and>
         headerStops (snd (readHeader_loop env fin w (hs @ s # ss))) = headerStops w + 1 \<and>
         emitted (snd (readHeader_loop env fin w (hs @ s # ss))) = emitted w \<and>
         (fst (readHeader_loop env fin w (hs @ s # ss)) \<longleftrightarrow>
            osFile w = None \<or>
            Seek_err env (Offset (snd (readHeader_loop env fin w (hs @ s # ss)))) \<noteq> None) \<and>
         (\<not> fst (readHeader_loop env fin w (hs @ s # ss)) \<longrightarrow>
            map_option f_pos (osFile (snd (readHeader_loop env fin w (hs @ s # ss)))) =
              Some (Offset (snd (readHeader_loop env fin w (hs @ s # ss)))))"
  using assms(1,2)
proof (induction hs arbitrary: w)
  case Nil
  let ?w2 = "(foldl Read w (reads s))
               \<lparr>FileAttributes := fst (Process env (fst (DecodeAsString env (Bytes s)))
                                         (FileAttributes (foldl Read w (reads s))))\<rparr>"
  have step: "readHeader_loop env fin w ([] @ s # ss) = finalizeHeader env ?w2"
    using assms(3,4) by (simp add: Let_def)
  have fr: "Offset ?w2 = Offset w" "emitted ?w2 = emitted w" "headerStops ?w2 = headerStops w"
    "osFile ?w2 = None \<longleftrightarrow> osFile w = None"
    by simp_all
  show ?case
    unfolding step using finalizeHeader_facts [of env ?w2] fr by simp
next
  case (Cons h hs)
  have "\<not> (snd (DecodeAsString env (Bytes h)) = None \<and>
              snd (Process env (fst (DecodeAsString env (Bytes h))) (FileAttributes w)) =
                Some ErrEndOfHeader)"
    using Cons.prems(2) by auto
  from readHeader_loop_step [OF this, of fin "hs @ s # ss"]
  obtain w' where w':
    "readHeader_loop env fin w (h # hs @ s # ss) = readHeader_loop env fin w' (hs @ s # ss)"
    "Offset w' = Pos h" "headerReader w' = headerReader w" "headerStops w' = headerStops w"
    "emitted w' = emitted w" "osFile w' = None \<longleftrightarrow> osFile w = None"
    by (elim exE conjE) simp
  define r where "r = readHeader_loop env fin w' (hs @ s # ss)"
  have ih: "Offset (snd r) = (if hs = [] then Offset w' else Pos (last hs)) \<and>
         headerReader (snd r) = None \<and> HeaderFinalized (snd r) \<and>
         headerStops (snd r) = headerStops w' + 1 \<and> emitted (snd r) = emitted w' \<and>
         (fst r \<longleftrightarrow> osFile w' = None \<or> Seek_err env (Offset (snd r)) \<noteq> None) \<and>
         (\<not> fst r \<longrightarrow> map_option f_pos (osFile (snd r)) = Some (Offset (snd r)))"
    unfolding r_def by (rule Cons.IH) (use Cons.prems w'(3) in simp_all)
  have app: "readHeader_loop env fin w ((h # hs) @ s # ss) = r"
    using w'(1) by (simp add: r_def)
  show ?case
    unfolding app using ih w'(2-6) by (cases "hs = []") auto
qed



text \<open>
  What the content scanner will be given after the header is finalized. With the raw
  file as the reader, the seek makes it the bytes of the file from the offset on. With
  a gzip reader it is the stream as the header scanner left it: seeking the file does
  not rewind the stream.
\<close>

lemma finalizeHeader_reader_bytes:
  "(reader w = RawFile \<and> osFile w = Some f \<and> Seek_err env (Offset w) = None \<longrightarrow>
      reader_bytes (snd (finalizeHeader env w)) = drop (nat (Offset w)) (f_bytes f)) \<and>
   (reader w = GzipReader stream \<longrightarrow> reader_bytes (snd (finalizeHeader env w)) = stream)"
  by (auto simp: finalizeHeader_def file_Seek_def Let_def logmsg_def reader_bytes_def
      split: option.splits)

text \<open>
  C5, where the code falls short of the claim. The same two lines, a header line and a
  content line, are read once from a raw file and once from a gzip file, with a header
  pipeline that ends the header at the content line and a scanner that reads its input
  ahead. For the raw file the claim holds: the header is finalized, the file is sought
  back to offset 2 and the content line is sent to the sink. For the gzip file the
  header is finalized and the file is sought as well, but the header scanner has taken
  the content line from the gzip stream, which the seek does not rewind: the content
  phase finds nothing, no token is sent to the sink, the deferred assignment sets the
  offset to the size of the file, and the next call of \<^verbatim>\<open>ReadToEnd\<close> sends nothing
  either. The first content token is dropped.
\<close>

theorem gzip_header_drops_first_content_token:
  "fst (ReadToEnd ex_env_lines ex_world_raw_header) = None \<and>
   HeaderFinalized (snd (ReadToEnd ex_env_lines ex_world_raw_header)) \<and>
   map e_tokens (emitted (snd (ReadToEnd ex_env_lines ex_world_raw_header))) = [[[120]]] \<and>
   Offset (snd (ReadToEnd ex_env_lines ex_world_raw_header)) = 4 \<and>
   fst (ReadToEnd ex_env_lines ex_world_gzip_header) = None \<and>
   HeaderFinalized (snd (ReadToEnd ex_env_lines ex_world_gzip_header)) \<and>
   emitted (snd (ReadToEnd ex_env_lines ex_world_gzip_header)) = [] \<and>
   Offset (snd (ReadToEnd ex_env_lines ex_world_gzip_header)) = 3 \<and>
   emitted (snd (ReadToEnd ex_env_lines (snd (ReadToEnd ex_env_lines ex_world_gzip_header)))) = []"
proof -
  have x: "map (\<lambda>x. char_of (unat x)) [120 :: 8 word] = ''x''"
    "map (\<lambda>x. char_of (unat x)) [35 :: 8 word] \<noteq> ''x''"
    by code_simp+
  have dec: "snd (DecodeAsString ex_env_lines [35]) = None"
    "snd (DecodeAsString ex_env_lines [120]) = None"
    by (simp_all add: ex_env_lines_def ex_env_def)
  have pr: "Process ex_env_lines (fst (DecodeAsString ex_env_lines [35])) a =
              (a(''h'' \<mapsto> fst (DecodeAsString ex_env_lines [35])), None)"
    "Process ex_env_lines (fst (DecodeAsString ex_env_lines [120])) a = (a, Some ErrEndOfHeader)"
    for a
    using x by (simp_all add: ex_env_lines_def ex_env_def)
  have env: "decoder_Bytes ex_env_lines b =
               (b, if b = [] then Some (Err ''invalid byte sequence'') else None)"
    "Stop_err ex_env_lines = None" "emitFunc ex_env_lines c = None" "tryLockFile ex_env_lines"
    "Stat_err ex_env_lines = None" "Seek_err ex_env_lines off = None"
    "ReadAt_err ex_env_lines = None"
    "gzip_NewReader ex_env_lines b =
       (if b = [31, 139, 8] then Inr [35, 10, 120, 10] else Inl (Err ''gzip: invalid header''))"
    "scanner_New ex_env_lines sf src off = ex_scanner src off"
    for b c off sf src
    by (simp_all add: ex_env_lines_def ex_env_def)
  have sc: "ex_scanner [35, 10, 120, 10] 0 =
              ([Scan [(4, None)] [35] 2, Scan [] [120] 4], ScanEnd [(0, Some EOF)] None 4)"
    "ex_scanner [120, 10] 2 = ([Scan [(2, None)] [120] 4], ScanEnd [(0, Some EOF)] None 4)"
    "ex_scanner [] 2 = ([], ScanEnd [(0, None), (0, Some EOF)] None 2)"
    by (simp_all add: ex_scanner_def)
  note defs = ReadToEnd_def ReadToEnd_switch_def ReadToEnd_gzip_def ReadToEnd_phases_def
    createGzipReader_def gzipExtension_def file_Seek_def readHeader_def readContents_def
    finalizeHeader_def reader_bytes_def updateFingerprint_def NewFromFile_def StartsWith_def
    Let_def Read_def Len_def logmsg_def emit_def
  define raw where "raw = ReadToEnd ex_env_lines ex_world_raw_header"
  define gz where "gz = ReadToEnd ex_env_lines ex_world_gzip_header"
  have r: "fst raw = None" "HeaderFinalized (snd raw)"
    "map e_tokens (emitted (snd raw)) = [[[120]]]" "Offset (snd raw) = 4"
    unfolding raw_def
    by (simp_all add: defs ex_world_raw_header_def ex_world_def env dec pr sc
        numeral_2_eq_2 numeral_3_eq_3)
  have g: "fst gz = None" "HeaderFinalized (snd gz)" "emitted (snd gz) = []"
    "Offset (snd gz) = 3"
    unfolding gz_def
    by (simp_all add: defs ex_world_gzip_header_def ex_world_def env dec pr sc
        numeral_2_eq_2 numeral_3_eq_3)
  have g2: "osFile (snd gz) = Some \<lparr>f_bytes = [31, 139, 8], f_pos = 2\<rparr>"
    "compression (snd gz) = ''gzip''" "acquireFSLock (snd gz) = False"
    unfolding gz_def
    by (simp_all add: defs ex_world_gzip_header_def ex_world_def env dec pr sc
        numeral_2_eq_2 numeral_3_eq_3)
  have n: "emitted (snd (ReadToEnd ex_env_lines (snd gz))) = []"
    by (simp add: ReadToEnd_def ReadToEnd_switch_def ReadToEnd_gzip_def createGzipReader_def
        Let_def g g2 env)
  show ?thesis using r g n by (simp add: raw_def gz_def)
qed

subsection \<open>Undecodable tokens\<close>

text \<open>
  Undecodable tokens. The attributes the header phase leaves are those it leaves when
  the undecodable tokens are taken out of the scan; the tokens flushed by the content
  phase are the decodable ones, in order.
\<close>

lemma readHeader_loop_attrs_filter:
  "FileAttributes w = FileAttributes w' \<Longrightarrow>
   FileAttributes (snd (readHeader_loop env fin w ss)) =
   FileAttributes (snd (readHeader_loop env fin w' (filter (decodable_header env) ss)))"
proof (induction ss arbitrary: w w')
  case Nil
  then show ?case by (simp add: Let_def split: last_scan.splits option.splits)
next
  case (Cons s ss)
  show ?case
  proof (cases "decodable_header env s")
    case False
    then have bad: "snd (DecodeAsString env (Bytes s)) \<noteq> None"
      by (simp add: decodable_header_def)
    let ?w1 = "(logmsg ''failed to decode header token'' (foldl Read w (reads s)))\<lparr>Offset := Pos s\<rparr>"
    have step: "readHeader_loop env fin w (s # ss) = readHeader_loop env fin ?w1 ss"
      using bad by (simp add: Let_def)
    have "FileAttributes ?w1 = FileAttributes w'" using Cons.prems by simp
    from Cons.IH [OF this] show ?thesis using False by (simp only: step filter.simps if_False)
  next
    case True
    then have ok: "snd (DecodeAsString env (Bytes s)) = None"
      by (simp add: decodable_header_def)
    let ?pr = "Process env (fst (DecodeAsString env (Bytes s))) (FileAttributes w)"
    let ?v = "(foldl Read w (reads s))\<lparr>FileAttributes := fst ?pr\<rparr>"
    let ?v' = "(foldl Read w' (reads s))\<lparr>FileAttributes := fst ?pr\<rparr>"
    have flt: "filter (decodable_header env) (s # ss) = s # filter (decodable_header env) ss"
      using True by simp
    show ?thesis
    proof (cases "snd ?pr")
      case None
      have s1: "readHeader_loop env fin w (s # ss) = readHeader_loop env fin (?v\<lparr>Offset := Pos s\<rparr>) ss"
        using ok None by (simp add: Let_def)
      have s2: "readHeader_loop env fin w' (s # filter (decodable_header env) ss) =
                readHeader_loop env fin (?v'\<lparr>Offset := Pos s\<rparr>) (filter (decodable_header env) ss)"
        using ok None Cons.prems by (simp add: Let_def)
      have "FileAttributes (?v\<lparr>Offset := Pos s\<rparr>) = FileAttributes (?v'\<lparr>Offset := Pos s\<rparr>)" by simp
      from Cons.IH [OF this] show ?thesis by (simp only: s1 s2 flt)
    next
      case (Some e)
      show ?thesis
      proof (cases "e = ErrEndOfHeader")
        case True
        have s1: "readHeader_loop env fin w (s # ss) = finalizeHeader env ?v"
          using ok Some True by (simp add: Let_def)
        have s2: "readHeader_loop env fin w' (s # filter (decodable_header env) ss) =
                  finalizeHeader env ?v'"
          using ok Some True Cons.prems by (simp add: Let_def)
        show ?thesis by (simp only: s1 s2 flt finalizeHeader_facts(3)) simp
      next
        case False
        let ?u = "(logmsg ''failed to process header token'' ?v)\<lparr>Offset := Pos s\<rparr>"
        let ?u' = "(logmsg ''failed to process header token'' ?v')\<lparr>Offset := Pos s\<rparr>"
        have s1: "readHeader_loop env fin w (s # ss) = readHeader_loop env fin ?u ss"
          using ok Some False by (simp add: Let_def)
        have s2: "readHeader_loop env fin w' (s # filter (decodable_header env) ss) =
                  readHeader_loop env fin ?u' (filter (decodable_header env) ss)"
          using ok Some False Cons.prems by (simp add: Let_def)
        have "FileAttributes ?u = FileAttributes ?u'" by simp
        from Cons.IH [OF this] show ?thesis by (simp only: s1 s2 flt)
      qed
    qed
  qed
qed

lemma readContents_loop_bad_step:
  assumes "\<not> decodable env s" "n < length tb" "n + 1 < length toffs"
  shows "\<exists>w' tb' toffs'.
           readContents_loop env fin w tb toffs n (s # rest) =
             readContents_loop env fin w' tb' toffs' n rest \<and>
           Offset w' = Pos s \<and> emitted w' = emitted w \<and> RecordNum w' = RecordNum w \<and>
           take n tb' = take n tb \<and> take (n + 1) toffs' = take (n + 1) toffs \<and>
           length tb' = length tb \<and> length toffs' = length toffs"
proof -
  let ?w' = "(logmsg ''failed to decode token'' (foldl Read w (reads s)))\<lparr>Offset := Pos s\<rparr>"
  let ?tb' = "tb[n := fst (decoder_Bytes env (Bytes s))]"
  let ?to' = "toffs[n + 1 := Pos s]"
  have "readContents_loop env fin w tb toffs n (s # rest) =
        readContents_loop env fin ?w' ?tb' ?to' n rest"
    using assms by (simp add: Let_def decodable_def)
  then show ?thesis
    by (intro exI [of _ ?w'] exI [of _ ?tb'] exI [of _ ?to']) simp
qed

lemma batches_concat_prefix:
  "prefix (concat (map (\<lambda>b. fst (snd b)) (batches m atEnd start rn acc ss))) (acc @ ss)"
proof (induction ss arbitrary: acc start rn)
  case Nil
  then show ?case by simp
next
  case (Cons s ss)
  show ?case
  proof (cases "m \<le> length acc + 1")
    case True
    have "prefix (concat (map (\<lambda>b. fst (snd b)) (batches m atEnd (Pos s) (rn + 1) [] ss))) ([] @ ss)"
      by (rule Cons.IH)
    then show ?thesis using True by simp
  next
    case False
    have "prefix (concat (map (\<lambda>b. fst (snd b)) (batches m atEnd start (rn + 1) (acc @ [s]) ss)))
            ((acc @ [s]) @ ss)"
      by (rule Cons.IH)
    then show ?thesis using False by simp
  qed
qed

lemma tokens_of_views:
  assumes "map call_view cs = map (batch_view env m) bs"
  shows "concat (map e_tokens cs) = map (decoded env) (concat (map (\<lambda>b. fst (snd b)) bs))"
proof -
  have "map e_tokens cs = map fst (map call_view cs)"
    by (simp add: call_view_def)
  also have "\<dots> = map fst (map (batch_view env m) bs)" by (simp only: assms)
  also have "\<dots> = map (map (decoded env)) (map (\<lambda>b. fst (snd b)) bs)"
    by (simp add: batch_view_def)
  finally show ?thesis by (simp only: map_concat)
qed


text \<open>
  C7. A token whose decoding fails is skipped in both phases. In the header phase the
  loop goes on with the rest of the scan from a state whose offset is the scanner
  position after the token and whose attributes are unchanged, and the attributes at the
  end are those of the scan without its undecodable tokens. In the content phase the
  loop goes on with the rest of the scan from a state whose offset is the scanner
  position after the token, with the same batch collected so far, the same record count
  and no call to the sink; and the tokens passed to the sink by the whole phase are
  decoded bodies of decodable tokens only: a prefix of them in order, and all of them
  when the phase ends with the scan rather than by cancellation.
\<close>

theorem undecodable_token_skipped:
  "(\<not> decodable_header env s \<longrightarrow>
      (\<exists>w'. readHeader_loop env fin w (s # rest) = readHeader_loop env fin w' rest \<and>
            Offset w' = Pos s \<and> FileAttributes w' = FileAttributes w \<and>
            emitted w' = emitted w \<and> headerReader w' = headerReader w \<and>
            HeaderFinalized w' = HeaderFinalized w)) \<and>
   FileAttributes (snd (readHeader_loop env fin w hs)) =
     FileAttributes (snd (readHeader_loop env fin w (filter (decodable_header env) hs))) \<and>
   (\<not> decodable env s \<and> n < length tb \<and> n + 1 < length toffs \<longrightarrow>
      (\<exists>w' tb' toffs'.
          readContents_loop env fin w tb toffs n (s # rest) =
            readContents_loop env fin w' tb' toffs' n rest \<and>
          Offset w' = Pos s \<and> emitted w' = emitted w \<and> RecordNum w' = RecordNum w \<and>
          take n tb' = take n tb \<and> take (n + 1) toffs' = take (n + 1) toffs \<and>
          length tb' = length tb \<and> length toffs' = length toffs)) \<and>
   (1 \<le> maxBatchSize w \<and> scanner_New env contentSplitFunc (reader_bytes w) (Offset w) = (ss, fin') \<longrightarrow>
      prefix (concat (map e_tokens (new_calls w (snd (readContents env w)))))
        (map (decoded env) (filter (decodable env) ss)) \<and>
      (fin' \<noteq> CtxDone \<longrightarrow>
         concat (map e_tokens (new_calls w (snd (readContents env w)))) =
           map (decoded env) (filter (decodable env) ss)))"
proof (intro conjI impI)
  assume "\<not> decodable_header env s"
  then have "\<not> (snd (DecodeAsString env (Bytes s)) = None \<and>
              snd (Process env (fst (DecodeAsString env (Bytes s))) (FileAttributes w)) =
                Some ErrEndOfHeader)"
    and bad: "snd (DecodeAsString env (Bytes s)) \<noteq> None"
    by (simp_all add: decodable_header_def)
  from readHeader_loop_step [OF this(1), of fin rest] bad
  show "\<exists>w'. readHeader_loop env fin w (s # rest) = readHeader_loop env fin w' rest \<and>
            Offset w' = Pos s \<and> FileAttributes w' = FileAttributes w \<and>
            emitted w' = emitted w \<and> headerReader w' = headerReader w \<and>
            HeaderFinalized w' = HeaderFinalized w"
    by (elim exE conjE) (intro exI conjI, assumption, simp_all)
next
  show "FileAttributes (snd (readHeader_loop env fin w hs)) =
     FileAttributes (snd (readHeader_loop env fin w (filter (decodable_header env) hs)))"
    by (rule readHeader_loop_attrs_filter) simp
next
  assume "\<not> decodable env s \<and> n < length tb \<and> n + 1 < length toffs"
  then show "\<exists>w' tb' toffs'.
          readContents_loop env fin w tb toffs n (s # rest) =
            readContents_loop env fin w' tb' toffs' n rest \<and>
          Offset w' = Pos s \<and> emitted w' = emitted w \<and> RecordNum w' = RecordNum w \<and>
          take n tb' = take n tb \<and> take (n + 1) toffs' = take (n + 1) toffs \<and>
          length tb' = length tb \<and> length toffs' = length toffs"
    using readContents_loop_bad_step [of env s n tb toffs fin w rest] by simp
next
  assume a: "1 \<le> maxBatchSize w \<and> scanner_New env contentSplitFunc (reader_bytes w) (Offset w) = (ss, fin')"
  let ?bs = "batches (nat (maxBatchSize w)) (fin' \<noteq> CtxDone) (Offset w) (RecordNum w) []
               (filter (decodable env) ss)"
  have view: "map call_view (new_calls w (snd (readContents env w))) =
              map (batch_view env (nat (maxBatchSize w))) ?bs"
    using a by (intro readContents_view) simp_all
  have toks: "concat (map e_tokens (new_calls w (snd (readContents env w)))) =
              map (decoded env) (concat (map (\<lambda>b. fst (snd b)) ?bs))"
    using view by (rule tokens_of_views)
  have "prefix (concat (map (\<lambda>b. fst (snd b)) ?bs)) ([] @ filter (decodable env) ss)"
    by (rule batches_concat_prefix)
  then show "prefix (concat (map e_tokens (new_calls w (snd (readContents env w)))))
        (map (decoded env) (filter (decodable env) ss))"
    unfolding toks by (simp add: map_mono_prefix)
  assume "fin' \<noteq> CtxDone"
  then have "concat (map (\<lambda>b. fst (snd b)) ?bs) = [] @ filter (decodable env) ss"
    by (simp only: batches_concat simp_thms)
  then show "concat (map e_tokens (new_calls w (snd (readContents env w)))) =
           map (decoded env) (filter (decodable env) ss)"
    unfolding toks by simp
qed

theorem undecodable_token_skipped_witness:
  "\<not> decodable_header ex_env_undecodable (Scan [] [] 3) \<and>
   \<not> decodable ex_env_undecodable (Scan [] [] 3) \<and>
   1 \<le> maxBatchSize ex_world \<and>
   scanner_New ex_env_undecodable contentSplitFunc (reader_bytes ex_world) (Offset ex_world) =
     ([Scan [] [1] 2, Scan [] [] 3, Scan [] [2] 5], ScanEnd [] None 5) \<and>
   concat (map e_tokens (new_calls ex_world (snd (readContents ex_env_undecodable ex_world)))) =
     [[1], [2]] \<and>
   (\<exists>w'. readHeader_loop ex_env_undecodable CtxDone ex_world [Scan [] [] 3] =
           readHeader_loop ex_env_undecodable CtxDone w' [] \<and>
         Offset w' = 3 \<and> FileAttributes w' = FileAttributes ex_world) \<and>
   (\<exists>w' tb' toffs'. readContents_loop ex_env_undecodable CtxDone ex_world [[], []] [0, 0, 0] 0
             [Scan [] [] 3] =
           readContents_loop ex_env_undecodable CtxDone w' tb' toffs' 0 [] \<and>
         Offset w' = 3 \<and> emitted w' = emitted ex_world)"
proof -
  let ?e = ex_env_undecodable
  let ?s = "Scan [] [] 3"
  have d: "decoded ?e s = Bytes s" "decodable ?e s \<longleftrightarrow> Bytes s \<noteq> []"
    "decodable_header ?e s \<longleftrightarrow> Bytes s \<noteq> []" for s
    by (simp_all add: decoded_def decodable_def decodable_header_def ex_env_undecodable_def
        ex_env_def)
  have h1: "\<not> decodable_header ?e ?s" and h2: "\<not> decodable ?e ?s" by (simp_all add: d)
  have h3: "1 \<le> maxBatchSize ex_world" by (simp add: ex_world_def)
  have h4: "scanner_New ?e contentSplitFunc (reader_bytes ex_world) (Offset ex_world) =
     ([Scan [] [1] 2, Scan [] [] 3, Scan [] [2] 5], ScanEnd [] None 5)"
    by (simp add: ex_env_undecodable_def)
  note T = undecodable_token_skipped [of ?e ?s CtxDone ex_world "[]" "[]" 0 "[[], []]" "[0, 0, 0]"
      "[Scan [] [1] 2, Scan [] [] 3, Scan [] [2] 5]" "ScanEnd [] None 5"]
  have c1: "concat (map e_tokens (new_calls ex_world (snd (readContents ?e ex_world)))) = [[1], [2]]"
    using T h3 h4 by (simp add: d)
  have c2: "\<exists>w'. readHeader_loop ?e CtxDone ex_world [?s] = readHeader_loop ?e CtxDone w' [] \<and>
         Offset w' = 3 \<and> FileAttributes w' = FileAttributes ex_world"
    using T h1 by auto
  have c3: "\<exists>w' tb' toffs'. readContents_loop ?e CtxDone ex_world [[], []] [0, 0, 0] 0 [?s] =
           readContents_loop ?e CtxDone w' tb' toffs' 0 [] \<and>
         Offset w' = 3 \<and> emitted w' = emitted ex_world"
    using T h2 by auto
  show ?thesis using h1 h2 h3 h4 c1 c2 c3 by simp
qed

subsection \<open>The record count\<close>

text \<open>
  The record count. The loop of the content phase adds one, in 64-bit arithmetic, for
  every decodable token, at the moment the token is added to the batch, whether or not
  the batch is flushed later.
\<close>

lemma loop_RecordNum:
  "1 \<le> maxBatchSize w \<Longrightarrow> length tb = nat (maxBatchSize w) \<Longrightarrow>
   length toffs = nat (maxBatchSize w) + 1 \<Longrightarrow> n < nat (maxBatchSize w) \<Longrightarrow>
   RecordNum (snd (readContents_loop env fin w tb toffs n ss)) =
     RecordNum w + of_nat (length (filter (decodable env) ss))"
proof (induction ss arbitrary: w tb toffs n)
  case Nil
  then show ?case by (simp add: Let_def split: last_scan.splits option.splits)
next
  case (Cons s ss)
  show ?case
  proof (cases "snd (decoder_Bytes env (Bytes s)) = None")
    case False
    then show ?thesis using Cons.prems
      by (simp add: Let_def Cons.IH decodable_def)
  next
    case True
    show ?thesis
    proof (cases "maxBatchSize w \<le> int n + 1")
      case full: True
      then show ?thesis using Cons.prems True
        by (simp add: Let_def Cons.IH decodable_def)
    next
      case notfull: False
      then show ?thesis using Cons.prems True
        by (simp add: Let_def Cons.IH decodable_def)
    qed
  qed
qed

lemma readContents_RecordNum:
  assumes "1 \<le> maxBatchSize w"
  shows "RecordNum (snd (readContents env w)) =
         RecordNum w + of_nat (length (filter (decodable env)
                              (fst (scanner_New env contentSplitFunc (reader_bytes w) (Offset w)))))"
  using assms unfolding readContents_def Let_def
  by (simp add: loop_RecordNum nat_add_distrib)

text \<open>
  When the phase ends with the scan, every counted token has been passed to the sink:
  the increase of the count is the number of tokens in the flush calls of the phase.
\<close>

lemma readContents_delivered:
  assumes "snd (scanner_New env contentSplitFunc (reader_bytes w) (Offset w)) \<noteq> CtxDone"
  shows "RecordNum (snd (readContents env w)) =
         RecordNum w + of_nat (length (concat (map e_tokens (new_calls w (snd (readContents env w))))))"
proof (cases "1 \<le> maxBatchSize w")
  case True
  obtain ss fin where sc: "scanner_New env contentSplitFunc (reader_bytes w) (Offset w) = (ss, fin)"
    by (cases "scanner_New env contentSplitFunc (reader_bytes w) (Offset w)")
  let ?bs = "batches (nat (maxBatchSize w)) (fin \<noteq> CtxDone) (Offset w) (RecordNum w) []
               (filter (decodable env) ss)"
  have fin: "fin \<noteq> CtxDone" using assms sc by simp
  have "concat (map e_tokens (new_calls w (snd (readContents env w)))) =
        map (decoded env) (concat (map (\<lambda>b. fst (snd b)) ?bs))"
    by (rule tokens_of_views) (rule readContents_view [OF True sc])
  also have "concat (map (\<lambda>b. fst (snd b)) ?bs) = [] @ filter (decodable env) ss"
    using fin by (simp only: batches_concat simp_thms)
  finally have "length (concat (map e_tokens (new_calls w (snd (readContents env w))))) =
                length (filter (decodable env) ss)"
    by simp
  then show ?thesis using readContents_RecordNum [OF True, of env] sc by simp
next
  case False
  show ?thesis
  proof (cases "maxBatchSize w < 0")
    case True
    then show ?thesis by (simp add: readContents_def Let_def new_calls_def)
  next
    case nonneg: False
    then have z: "maxBatchSize w = 0" using False by simp
    show ?thesis
    proof (cases "fst (scanner_New env contentSplitFunc (reader_bytes w) (Offset w))")
      case Nil
      then show ?thesis using z
        by (simp add: readContents_def Let_def new_calls_def split: last_scan.splits option.splits)
    next
      case (Cons s ss)
      then show ?thesis using z
        by (simp add: readContents_def Let_def new_calls_def)
    qed
  qed
qed

text \<open>
  The count is a signed 64-bit integer: at its largest value, counting one more token
  wraps it to the smallest.
\<close>

lemma RecordNum_wraps:
  "sint (RecordNum (ex_world\<lparr>RecordNum := 9223372036854775807\<rparr>)) = 9223372036854775807 \<and>
   sint (RecordNum (snd (readContents ex_env_one_token
                           (ex_world\<lparr>RecordNum := 9223372036854775807\<rparr>)))) =
     - 9223372036854775808"
proof -
  have "RecordNum (snd (readContents ex_env_one_token
                           (ex_world\<lparr>RecordNum := 9223372036854775807\<rparr>))) =
        9223372036854775807 + 1"
    by (simp add: readContents_def ex_env_one_token_def ex_env_def
      ex_world_def Let_def emit_def logmsg_def Read_def Len_def reader_bytes_def
      numeral_2_eq_2 numeral_3_eq_3)
  then show ?thesis by simp
qed

text \<open>
  C8, where the code falls short of the claim. The context is cancelled after the first
  token of a batch of two has been collected. The content phase has counted the token,
  \<^verbatim>\<open>RecordNum\<close> is 1, but it returns without a flush: no token was passed to the sink
  and the offset is still 0. The next content phase therefore scans the same token
  again, counts it again, and passes it to the sink as its first delivered token with
  the record count 2. The same token read by a phase that was not cancelled is passed
  with the record count 1, as the end of the scan flushes the batch that the
  cancellation drops.
\<close>

theorem cancelled_token_counted_twice:
  "RecordNum ex_world = 0 \<and> Offset ex_world = 0 \<and>
   RecordNum (snd (readContents ex_env_cancelled ex_world)) = 1 \<and>
   emitted (snd (readContents ex_env_cancelled ex_world)) = [] \<and>
   Offset (snd (readContents ex_env_cancelled ex_world)) = 0 \<and>
   map e_tokens (emitted (snd (readContents ex_env_one_token
                                 (snd (readContents ex_env_cancelled ex_world))))) = [[[1]]] \<and>
   map e_recordNum (emitted (snd (readContents ex_env_one_token
                                    (snd (readContents ex_env_cancelled ex_world))))) = [2] \<and>
   map e_tokens (emitted (snd (readContents ex_env_one_token ex_world))) = [[[1]]] \<and>
   map e_recordNum (emitted (snd (readContents ex_env_one_token ex_world))) = [1]"
  by (simp add: readContents_def ex_env_cancelled_def ex_env_one_token_def ex_env_def
      ex_world_def Let_def emit_def logmsg_def Read_def Len_def reader_bytes_def
      numeral_2_eq_2 numeral_3_eq_3)

subsection \<open>Offset and flushes\<close>

text \<open>
  One turn of the loop of the content phase, from any state in which the writes are in
  range, and its end. The token of the turn decodes. When it fills the batch, the sink
  is called with the offset still what it was before the turn, and the loop goes on
  from the state the call leaves with the offset set to the scanner position after the
  token; when the sink fails, the failure is logged and nothing else differs. When it
  does not fill the batch, the sink is not called and the offset does not move.
\<close>

lemma flush_step:
  assumes "decodable env s" "n < length tb" "n + 1 < length toffs"
    "0 < maxBatchSize w" "maxBatchSize w \<le> int n + 1"
  shows "\<exists>wf c tb' toffs'.
          readContents_loop env fin w tb toffs n (s # rest) =
            readContents_loop env fin (wf\<lparr>Offset := Pos s\<rparr>) tb' toffs' 0 rest \<and>
          Offset wf = Offset w \<and> emitted wf = emitted w @ [c] \<and>
          e_tokens c = take n tb @ [decoded env s] \<and>
          logged wf =
            logged w @ (if emitFunc env c = None then [] else [''failed to emit token'']) \<and>
          maxBatchSize wf = maxBatchSize w \<and>
          length tb' = length tb \<and> length toffs' = length toffs"
proof -
  let ?w1 = "foldl Read w (reads s)"
  let ?tb1 = "tb[n := fst (decoder_Bytes env (Bytes s))]"
  let ?to1 = "toffs[n + 1 := Pos s]"
  let ?w2 = "?w1\<lparr>RecordNum := RecordNum ?w1 + 1\<rparr>"
  let ?c = "\<lparr>e_tokens = take (n + 1) ?tb1, e_attrs = FileAttributes ?w2,
             e_recordNum = RecordNum ?w2, e_tokenOffsets = ?to1\<rparr>"
  let ?wf = "emit env ?w2 (take (n + 1) ?tb1) ?to1"
  have ok: "snd (decoder_Bytes env (Bytes s)) = None"
    using assms(1) by (simp add: decodable_def)
  have step: "readContents_loop env fin w tb toffs n (s # rest) =
              readContents_loop env fin (?wf\<lparr>Offset := Pos s\<rparr>) ?tb1 (?to1[0 := Pos s]) 0 rest"
    using assms ok by (simp add: Let_def)
  have o: "Offset ?wf = Offset w" by simp
  have e: "emitted ?wf = emitted w @ [?c]" by simp
  have t: "e_tokens ?c = take n tb @ [decoded env s]"
    using assms(2) by (simp add: take_Suc_conv_app_nth decoded_def)
  have l: "logged ?wf =
            logged w @ (if emitFunc env ?c = None then [] else [''failed to emit token''])"
    by (simp add: emit_def Let_def logmsg_def split: option.splits)
  have m: "maxBatchSize ?wf = maxBatchSize w" by simp
  have n: "length ?tb1 = length tb" "length (?to1[0 := Pos s]) = length toffs" by simp_all
  from step o e t l m n show ?thesis by blast
qed

lemma collect_step:
  assumes "decodable env s" "n < length tb" "n + 1 < length toffs"
    "\<not> (0 < maxBatchSize w \<and> maxBatchSize w \<le> int n + 1)"
  shows "\<exists>w' tb' toffs'.
          readContents_loop env fin w tb toffs n (s # rest) =
            readContents_loop env fin w' tb' toffs' (n + 1) rest \<and>
          Offset w' = Offset w \<and> emitted w' = emitted w \<and> logged w' = logged w \<and>
          take (n + 1) tb' = take n tb @ [decoded env s] \<and>
          maxBatchSize w' = maxBatchSize w \<and>
          length tb' = length tb \<and> length toffs' = length toffs"
proof -
  let ?w1 = "foldl Read w (reads s)"
  let ?tb1 = "tb[n := fst (decoder_Bytes env (Bytes s))]"
  let ?to1 = "toffs[n + 1 := Pos s]"
  let ?w2 = "?w1\<lparr>RecordNum := RecordNum ?w1 + 1\<rparr>"
  have ok: "snd (decoder_Bytes env (Bytes s)) = None"
    using assms(1) by (simp add: decodable_def)
  have step: "readContents_loop env fin w tb toffs n (s # rest) =
              readContents_loop env fin ?w2 ?tb1 ?to1 (n + 1) rest"
    using assms ok by (auto simp add: Let_def)
  have f: "Offset ?w2 = Offset w \<and> emitted ?w2 = emitted w \<and> logged ?w2 = logged w \<and>
        maxBatchSize ?w2 = maxBatchSize w \<and> length ?tb1 = length tb \<and>
        length ?to1 = length toffs" by simp
  have t: "take (n + 1) ?tb1 = take n tb @ [decoded env s]"
    using assms(2) by (simp add: take_Suc_conv_app_nth decoded_def)
  from step f t show ?thesis by blast
qed

text \<open>
  The end of the scan with a batch that is not empty: the sink is called with the
  offset unchanged, and the offset is then set to the position of the scanner.
\<close>

lemma final_flush:
  assumes "0 < n"
  shows "\<exists>wf c.
          readContents_loop env (ScanEnd rds err p) w tb toffs n [] = (None, wf\<lparr>Offset := p\<rparr>) \<and>
          Offset wf = Offset w \<and> emitted wf = emitted w @ [c] \<and> e_tokens c = take n tb \<and>
          (emitFunc env c \<noteq> None \<longrightarrow> last (logged wf) = ''failed to emit token'')"
proof -
  let ?w1 = "foldl Read w rds"
  let ?w2 = "case err of Some e \<Rightarrow> logmsg ''failed during scan'' ?w1
             | None \<Rightarrow> if deleteAtEOF ?w1 then delete env ?w1 else ?w1"
  let ?c = "\<lparr>e_tokens = take n tb, e_attrs = FileAttributes ?w2,
             e_recordNum = RecordNum ?w2, e_tokenOffsets = toffs\<rparr>"
  let ?wf = "emit env ?w2 (take n tb) toffs"
  have step: "readContents_loop env (ScanEnd rds err p) w tb toffs n [] = (None, ?wf\<lparr>Offset := p\<rparr>)"
    using assms by (simp add: Let_def)
  have w2: "Offset ?w2 = Offset w" "emitted ?w2 = emitted w"
    by (simp_all split: option.splits)
  have o: "Offset ?wf = Offset w" using w2 by simp
  have e: "emitted ?wf = emitted w @ [?c]" using w2 by simp
  have l: "emitFunc env ?c \<noteq> None \<longrightarrow> last (logged ?wf) = ''failed to emit token''"
    by (simp add: emit_def Let_def logmsg_def split: option.splits)
  from step o e l show ?thesis by (intro exI [of _ ?wf] exI [of _ ?c]) simp
qed

text \<open>
  C1 (as amended). In the content phase every flush call is made with the offset as it
  was before the turn of the loop that makes the call, and the offset is set to the
  scanner's current position right after the call, whether the call succeeded or
  failed. From any state of the loop in which the writes are in range:
  \<^item> when a decodable token fills the batch, the sink is called once, with the tokens of
    the batch, while the offset is still what it was before the token was scanned; then
    the offset is set to the scanner position after the token and the loop goes on with
    an empty batch; when the call fails, the failure is logged and the offset is set
    all the same;
  \<^item> when a decodable token does not fill the batch, the sink is not called and the
    offset does not move;
  \<^item> when the scan ends with a batch that is not empty, the sink is called once with
    that batch while the offset is unchanged, then the offset is set to the position of
    the scanner, also when the call fails; with an empty batch the sink is not called
    and the offset does not move;
  \<^item> when the context is cancelled, the phase returns at once: no call is made for the
    tokens collected so far and the offset does not move.

  Every state the loop goes on from has slices of the same lengths and the same batch
  size, so the statements chain along a run.
\<close>

theorem offset_set_after_every_flush:
  "(decodable env s \<and> n < length tb \<and> n + 1 < length toffs \<and>
      0 < maxBatchSize w \<and> maxBatchSize w \<le> int n + 1 \<longrightarrow>
      (\<exists>wf c tb' toffs'.
          readContents_loop env fin w tb toffs n (s # rest) =
            readContents_loop env fin (wf\<lparr>Offset := Pos s\<rparr>) tb' toffs' 0 rest \<and>
          Offset wf = Offset w \<and> emitted wf = emitted w @ [c] \<and>
          e_tokens c = take n tb @ [decoded env s] \<and>
          logged wf =
            logged w @ (if emitFunc env c = None then [] else [''failed to emit token'']) \<and>
          maxBatchSize wf = maxBatchSize w \<and>
          length tb' = length tb \<and> length toffs' = length toffs)) \<and>
   (decodable env s \<and> n < length tb \<and> n + 1 < length toffs \<and>
      \<not> (0 < maxBatchSize w \<and> maxBatchSize w \<le> int n + 1) \<longrightarrow>
      (\<exists>w' tb' toffs'.
          readContents_loop env fin w tb toffs n (s # rest) =
            readContents_loop env fin w' tb' toffs' (n + 1) rest \<and>
          Offset w' = Offset w \<and> emitted w' = emitted w \<and> logged w' = logged w \<and>
          take (n + 1) tb' = take n tb @ [decoded env s] \<and>
          maxBatchSize w' = maxBatchSize w \<and>
          length tb' = length tb \<and> length toffs' = length toffs)) \<and>
   (0 < n \<longrightarrow>
      (\<exists>wf c.
          readContents_loop env (ScanEnd rds err p) w tb toffs n [] =
            (None, wf\<lparr>Offset := p\<rparr>) \<and>
          Offset wf = Offset w \<and> emitted wf = emitted w @ [c] \<and> e_tokens c = take n tb \<and>
          (emitFunc env c \<noteq> None \<longrightarrow> last (logged wf) = ''failed to emit token''))) \<and>
   Offset (snd (readContents_loop env (ScanEnd rds err p) w tb toffs 0 [])) = Offset w \<and>
   emitted (snd (readContents_loop env (ScanEnd rds err p) w tb toffs 0 [])) = emitted w \<and>
   readContents_loop env CtxDone w tb toffs n [] = (None, w)"
proof (intro conjI impI)
  assume "decodable env s \<and> n < length tb \<and> n + 1 < length toffs \<and>
      0 < maxBatchSize w \<and> maxBatchSize w \<le> int n + 1"
  then show "\<exists>wf c tb' toffs'.
          readContents_loop env fin w tb toffs n (s # rest) =
            readContents_loop env fin (wf\<lparr>Offset := Pos s\<rparr>) tb' toffs' 0 rest \<and>
          Offset wf = Offset w \<and> emitted wf = emitted w @ [c] \<and>
          e_tokens c = take n tb @ [decoded env s] \<and>
          logged wf =
            logged w @ (if emitFunc env c = None then [] else [''failed to emit token'']) \<and>
          maxBatchSize wf = maxBatchSize w \<and>
          length tb' = length tb \<and> length toffs' = length toffs"
    by (intro flush_step) simp_all
next
  assume "decodable env s \<and> n < length tb \<and> n + 1 < length toffs \<and>
      \<not> (0 < maxBatchSize w \<and> maxBatchSize w \<le> int n + 1)"
  then show "\<exists>w' tb' toffs'.
          readContents_loop env fin w tb toffs n (s # rest) =
            readContents_loop env fin w' tb' toffs' (n + 1) rest \<and>
          Offset w' = Offset w \<and> emitted w' = emitted w \<and> logged w' = logged w \<and>
          take (n + 1) tb' = take n tb @ [decoded env s] \<and>
          maxBatchSize w' = maxBatchSize w \<and>
          length tb' = length tb \<and> length toffs' = length toffs"
    by (intro collect_step) simp_all
next
  assume "0 < n"
  then show "\<exists>wf c.
          readContents_loop env (ScanEnd rds err p) w tb toffs n [] =
            (None, wf\<lparr>Offset := p\<rparr>) \<and>
          Offset wf = Offset w \<and> emitted wf = emitted w @ [c] \<and> e_tokens c = take n tb \<and>
          (emitFunc env c \<noteq> None \<longrightarrow> last (logged wf) = ''failed to emit token'')"
    by (rule final_flush)
qed (simp_all add: Let_def split: option.splits)

text \<open>
  A run of three tokens with batches of two and a sink that rejects every call. When
  the context is cancelled after the third token, the offset is 4, the position after
  the one batch that was flushed, and the third token was not passed to the sink. When
  the scan ends after the third token, the third token is flushed too and the offset
  is 6.
\<close>

theorem offset_set_after_every_flush_witness:
  "list_all (decodable ex_env_sink_down)
     [Scan [(10, None)] [1] 2, Scan [] [2] 4, Scan [] [3] 6] \<and>
   maxBatchSize ex_world = 2 \<and> Offset ex_world = 0 \<and> emitted ex_world = [] \<and>
   Offset (snd (readContents_loop ex_env_sink_down CtxDone ex_world [[], []] [0, 0, 0] 0
                  [Scan [(10, None)] [1] 2, Scan [] [2] 4, Scan [] [3] 6])) = 4 \<and>
   map e_tokens
     (emitted (snd (readContents_loop ex_env_sink_down CtxDone ex_world [[], []] [0, 0, 0] 0
                      [Scan [(10, None)] [1] 2, Scan [] [2] 4, Scan [] [3] 6]))) =
     [[[1], [2]]] \<and>
   logged (snd (readContents_loop ex_env_sink_down CtxDone ex_world [[], []] [0, 0, 0] 0
                  [Scan [(10, None)] [1] 2, Scan [] [2] 4, Scan [] [3] 6])) =
     [''failed to emit token''] \<and>
   Offset (snd (readContents_loop ex_env_sink_down (ScanEnd [(0, Some EOF)] None 6) ex_world
                  [[], []] [0, 0, 0] 0
                  [Scan [(10, None)] [1] 2, Scan [] [2] 4, Scan [] [3] 6])) = 6 \<and>
   map e_tokens
     (emitted (snd (readContents_loop ex_env_sink_down (ScanEnd [(0, Some EOF)] None 6) ex_world
                      [[], []] [0, 0, 0] 0
                      [Scan [(10, None)] [1] 2, Scan [] [2] 4, Scan [] [3] 6]))) =
     [[[1], [2]], [[3]]] \<and>
   last (logged (snd (readContents_loop ex_env_sink_down (ScanEnd [(0, Some EOF)] None 6)
                        ex_world [[], []] [0, 0, 0] 0
                        [Scan [(10, None)] [1] 2, Scan [] [2] 4, Scan [] [3] 6]))) =
     ''failed to emit token''"
proof -
  let ?e = ex_env_sink_down
  let ?s1 = "Scan [(10, None)] [1] 2"
  let ?s2 = "Scan [] [2] 4"
  let ?s3 = "Scan [] [3] 6"
  define L where "L = readContents_loop ex_env_sink_down"
  have d: "decodable ?e s \<longleftrightarrow> Bytes s \<noteq> []" "decoded ?e s = Bytes s" for s
    by (simp_all add: decodable_def decoded_def ex_env_sink_down_def ex_env_def)
  have ef: "emitFunc ?e c \<noteq> None" for c by (simp add: ex_env_sink_down_def)
  have w0: "maxBatchSize ex_world = 2" "Offset ex_world = 0" "emitted ex_world = []"
    "logged ex_world = []"
    by (simp_all add: ex_world_def)
  have chain: "\<exists>w3 tb3 to3 c.
      L fin ex_world [[], []] [0, 0, 0] 0 [?s1, ?s2, ?s3] = L fin w3 tb3 to3 1 [] \<and>
      Offset w3 = 4 \<and> emitted w3 = [c] \<and> e_tokens c = [[1], [2]] \<and>
      logged w3 = [''failed to emit token''] \<and> take 1 tb3 = [[3]]" for fin
  proof -
    have "\<exists>w1 tb1 to1.
      L fin ex_world [[], []] [0, 0, 0] 0 [?s1, ?s2, ?s3] = L fin w1 tb1 to1 1 [?s2, ?s3] \<and>
      Offset w1 = 0 \<and> emitted w1 = [] \<and> logged w1 = [] \<and> take 1 tb1 = [[1]] \<and>
      maxBatchSize w1 = 2 \<and> length tb1 = 2 \<and> length to1 = 3"
      using offset_set_after_every_flush [where env = ?e and s = ?s1 and n = 0 and w = ex_world
        and tb = "[[], []]" and toffs = "[0, 0, 0]" and fin = fin and rest = "[?s2, ?s3]",
        folded L_def, THEN conjunct2, THEN conjunct1]
      by (simp add: d w0 numeral_2_eq_2 numeral_3_eq_3)
    then obtain w1 tb1 to1 where s1:
      "L fin ex_world [[], []] [0, 0, 0] 0 [?s1, ?s2, ?s3] = L fin w1 tb1 to1 1 [?s2, ?s3]"
      "Offset w1 = 0" "emitted w1 = []" "logged w1 = []" "take 1 tb1 = [[1]]"
      "maxBatchSize w1 = 2" "length tb1 = 2" "length to1 = 3"
      by blast
    have "\<exists>wf c tb2 to2.
      L fin w1 tb1 to1 1 [?s2, ?s3] = L fin (wf\<lparr>Offset := 4\<rparr>) tb2 to2 0 [?s3] \<and>
      emitted wf = [c] \<and> e_tokens c = [[1], [2]] \<and> logged wf = [''failed to emit token''] \<and>
      maxBatchSize wf = 2 \<and> length tb2 = 2 \<and> length to2 = 3"
      using offset_set_after_every_flush [where env = ?e and s = ?s2 and n = 1 and w = w1
        and tb = tb1 and toffs = to1 and fin = fin and rest = "[?s3]", folded L_def,
        THEN conjunct1]
      by (simp add: d s1 ef numeral_2_eq_2 numeral_3_eq_3)
        (elim exE conjE, intro exI conjI, assumption, simp_all add: s1 [simplified])
    then obtain wf c tb2 to2 where s2:
      "L fin w1 tb1 to1 1 [?s2, ?s3] = L fin (wf\<lparr>Offset := 4\<rparr>) tb2 to2 0 [?s3]"
      "emitted wf = [c]" "e_tokens c = [[1], [2]]" "logged wf = [''failed to emit token'']"
      "maxBatchSize wf = 2" "length tb2 = 2" "length to2 = 3"
      by blast
    have "\<exists>w3 tb3 to3.
      L fin (wf\<lparr>Offset := 4\<rparr>) tb2 to2 0 [?s3] = L fin w3 tb3 to3 1 [] \<and>
      Offset w3 = 4 \<and> emitted w3 = [c] \<and> logged w3 = [''failed to emit token''] \<and>
      take 1 tb3 = [[3]]"
      using offset_set_after_every_flush [where env = ?e and s = ?s3 and n = 0
        and w = "wf\<lparr>Offset := 4\<rparr>" and tb = tb2 and toffs = to2 and fin = fin and rest = "[]",
        folded L_def, THEN conjunct2, THEN conjunct1]
      by (simp add: d s2) blast
    then obtain w3 tb3 to3 where s3:
      "L fin (wf\<lparr>Offset := 4\<rparr>) tb2 to2 0 [?s3] = L fin w3 tb3 to3 1 []"
      "Offset w3 = 4" "emitted w3 = [c]" "logged w3 = [''failed to emit token'']"
      "take 1 tb3 = [[3]]"
      by blast
    from s1(1) s2(1,3) s3 show ?thesis
      by (intro exI [of _ w3] exI [of _ tb3] exI [of _ to3] exI [of _ c]) simp
  qed
  have h: "list_all (decodable ?e) [?s1, ?s2, ?s3]" by (simp add: d)
  from chain [of CtxDone] obtain w3 tb3 to3 c where c:
    "L CtxDone ex_world [[], []] [0, 0, 0] 0 [?s1, ?s2, ?s3] = L CtxDone w3 tb3 to3 1 []"
    "Offset w3 = 4" "emitted w3 = [c]" "e_tokens c = [[1], [2]]"
    "logged w3 = [''failed to emit token'']"
    by blast
  have "L CtxDone w3 tb3 to3 1 [] = (None, w3)"
    using offset_set_after_every_flush [where env = ?e and w = w3 and tb = tb3 and toffs = to3
        and n = 1, folded L_def, THEN conjunct2, THEN conjunct2, THEN conjunct2,
        THEN conjunct2, THEN conjunct2] .
  then have cancelled:
    "Offset (snd (L CtxDone ex_world [[], []] [0, 0, 0] 0 [?s1, ?s2, ?s3])) = 4 \<and>
     map e_tokens (emitted (snd (L CtxDone ex_world [[], []] [0, 0, 0] 0 [?s1, ?s2, ?s3]))) =
       [[[1], [2]]] \<and>
     logged (snd (L CtxDone ex_world [[], []] [0, 0, 0] 0 [?s1, ?s2, ?s3])) =
       [''failed to emit token'']"
    using c by simp
  let ?fin = "ScanEnd [(0, Some EOF)] None 6"
  from chain [of ?fin] obtain v3 ub3 uo3 c1 where e:
    "L ?fin ex_world [[], []] [0, 0, 0] 0 [?s1, ?s2, ?s3] = L ?fin v3 ub3 uo3 1 []"
    "Offset v3 = 4" "emitted v3 = [c1]" "e_tokens c1 = [[1], [2]]" "take 1 ub3 = [[3]]"
    by blast
  have "\<exists>vf c2. L ?fin v3 ub3 uo3 1 [] = (None, vf\<lparr>Offset := 6\<rparr>) \<and>
      emitted vf = [c1, c2] \<and> e_tokens c2 = [[3]] \<and>
      last (logged vf) = ''failed to emit token''"
    using offset_set_after_every_flush [where env = ?e and w = v3 and tb = ub3 and toffs = uo3
        and n = 1 and rds = "[(0, Some EOF)]" and err = None and p = 6, folded L_def,
        THEN conjunct2, THEN conjunct2, THEN conjunct1]
    by (simp add: e ef) (use e(5) [simplified] in auto)
  then obtain vf c2 where f:
    "L ?fin v3 ub3 uo3 1 [] = (None, vf\<lparr>Offset := 6\<rparr>)"
    "emitted vf = [c1, c2]" "e_tokens c2 = [[3]]" "last (logged vf) = ''failed to emit token''"
    by blast
  have ended:
    "Offset (snd (L ?fin ex_world [[], []] [0, 0, 0] 0 [?s1, ?s2, ?s3])) = 6 \<and>
     map e_tokens (emitted (snd (L ?fin ex_world [[], []] [0, 0, 0] 0 [?s1, ?s2, ?s3]))) =
       [[[1], [2]], [[3]]] \<and>
     last (logged (snd (L ?fin ex_world [[], []] [0, 0, 0] 0 [?s1, ?s2, ?s3]))) =
       ''failed to emit token''"
    using e f by simp
  show ?thesis
    using h w0(1-3) cancelled ended unfolding L_def by (simp only: simp_thms)
qed

text \<open>
  The claim as stated fails for a sink that rejects every call: the failure of the
  first flush is logged and the offset is advanced past the two tokens of that batch, and
  at the end of the phase the offset is at the end of the scan although all three
  flushes failed.
\<close>

theorem offset_after_failed_flush_counterexample:
  "Offset ex_world = 0 \<and>
   Offset (snd (readContents_loop ex_env_sink_down CtxDone ex_world [[], []] [0, 0, 0] 0
                  [Scan [(10, None)] [1] 2, Scan [] [2] 4])) = 4 \<and>
   logged (snd (readContents_loop ex_env_sink_down CtxDone ex_world [[], []] [0, 0, 0] 0
                  [Scan [(10, None)] [1] 2, Scan [] [2] 4])) = [''failed to emit token''] \<and>
   Offset (snd (readContents ex_env_sink_down ex_world)) = 10 \<and>
   logged (snd (readContents ex_env_sink_down ex_world)) =
     [''failed to emit token'', ''failed to emit token'', ''failed to emit token'']"
  by (simp add: readContents_def ex_env_sink_down_def ex_env_def ex_world_def Let_def
      emit_def logmsg_def Read_def Len_def numeral_2_eq_2 numeral_3_eq_3)

end
